theory Spec2Isabelle
  imports Complex_Main "HOL-Library.Log_Nat" "HOL-Library.Multiset"
begin

section \<open>Reference data and Python primitives\<close>

text \<open>
  The embedding follows \<^verbatim>\<open>match_analyzer.py\<close> and \<^verbatim>\<open>tournament_simulator.py\<close>.
  Numbers: the ratings, percentages and probabilities are Python floats. They are modelled
  as rationals, in two renderings. In the first every arithmetic step is the exact one;
  the simulator and all properties that do not depend on binary rounding are stated over
  it. In the second (section \<open>The match analyzer under binary64 rounding\<close>) the analyzer
  is parametrised by a rounding function applied after every float operation, and
  instantiated with rounding to the nearest binary64 value.
  \<^verbatim>\<open>round(x, 1)\<close> is rounding to the nearest tenth with ties to
  the even tenth, \<^verbatim>\<open>int(x)\<close> truncates towards zero, and \<^verbatim>\<open>a / b\<close> raises
  \<^verbatim>\<open>ZeroDivisionError\<close> for \<open>b = 0\<close>.
  Randomness: every call of the \<^verbatim>\<open>random\<close> module is an explicit input (a draw).
  Exceptions are values of type \<open>error\<close>.
\<close>

datatype error = ValueError int | KeyError string | ZeroDivisionError | IndexError | TypeError

text \<open>The rows of the three CSV tables the classes load (the columns the code reads).\<close>

record fixture =
  Match_ID :: int
  Team1 :: string
  Team2 :: string
  Venue :: string

record rating_row =
  Team :: string
  Bat_Rating :: rat
  Bowl_Rating :: rat
  Overall_Rating :: rat

record venue_row =
  venue :: string
  win_percent_bat_first :: rat
  win_percent_bowl_first :: rat
  avg_first_innings_score :: rat
  run_rate :: rat

record tables =
  schedule_df :: "fixture list"
  team_ratings_df :: "rating_row list"
  venue_stats_df :: "venue_row list"

text \<open>The values of the two lookup dictionaries built in \<^verbatim>\<open>MatchAnalyzer.__init__\<close>.\<close>

record rating =
  batting :: rat
  bowling :: rat
  overall :: rat

record venue_impact =
  bat_first_win_pct :: rat
  bowl_first_win_pct :: rat
  avg_score :: rat
  run_rate' :: rat

definition py_truediv :: "rat \<Rightarrow> rat \<Rightarrow> error + rat" where
  "py_truediv a b = (if b = 0 then Inl ZeroDivisionError else Inr (a / b))"

definition py_int :: "rat \<Rightarrow> int" where
  "py_int q = (if 0 \<le> q then \<lfloor>q\<rfloor> else \<lceil>q\<rceil>)"

definition round_half_even :: "rat \<Rightarrow> int" where
  "round_half_even q =
     (let f = \<lfloor>q\<rfloor>; r = q - of_int f
      in if r < 1 / 2 then f
         else if 1 / 2 < r then f + 1
         else if even f then f else f + 1)"

definition py_round1 :: "rat \<Rightarrow> rat" where
  "py_round1 x = of_int (round_half_even (x * 10)) / 10"

text \<open>
  A dict comprehension over the rows: a later row with the same key overwrites an earlier
  one, so the lookup finds the last row of that key.
\<close>

definition team_ratings :: "tables \<Rightarrow> string \<Rightarrow> rating option" where
  "team_ratings d =
     map_of (rev (map (\<lambda>row. (Team row,
        \<lparr>batting = Bat_Rating row, bowling = Bowl_Rating row, overall = Overall_Rating row\<rparr>))
        (team_ratings_df d)))"

definition venue_stats :: "tables \<Rightarrow> string \<Rightarrow> venue_impact option" where
  "venue_stats d =
     map_of (rev (map (\<lambda>row. (venue row,
        \<lparr>bat_first_win_pct = win_percent_bat_first row,
         bowl_first_win_pct = win_percent_bowl_first row,
         avg_score = avg_first_innings_score row,
         run_rate' = run_rate row\<rparr>))
        (venue_stats_df d)))"

section \<open>The match analyzer\<close>

text \<open>\<^verbatim>\<open>get_match_details\<close>: the first schedule row of that id, or \<^verbatim>\<open>ValueError\<close>.\<close>

definition get_match_details :: "tables \<Rightarrow> int \<Rightarrow> error + fixture" where
  "get_match_details d match_id =
     (case filter (\<lambda>row. Match_ID row = match_id) (schedule_df d) of
        [] \<Rightarrow> Inl (ValueError match_id)
      | match # _ \<Rightarrow> Inr match)"

definition get_team_rating :: "tables \<Rightarrow> string \<Rightarrow> rating" where
  "get_team_rating d team_name =
     (case team_ratings d team_name of
        Some r \<Rightarrow> r
      | None \<Rightarrow> \<lparr>batting = 50, bowling = 50, overall = 50\<rparr>)"

definition get_venue_impact :: "tables \<Rightarrow> string \<Rightarrow> venue_impact" where
  "get_venue_impact d v =
     (case venue_stats d v of
        Some s \<Rightarrow> s
      | None \<Rightarrow> \<lparr>bat_first_win_pct = 50, bowl_first_win_pct = 50, avg_score = 150,
                 run_rate' = 17 / 2\<rparr>)"

record head_to_head =
  total_matches :: int
  team1_wins :: int
  team2_wins :: int
  team1_win_pct :: rat
  team2_win_pct :: rat

text \<open>
  \<^verbatim>\<open>get_head_to_head_record\<close>; \<open>draw_total\<close> is the value drawn by
  \<^verbatim>\<open>random.randint(8, 15)\<close>.
\<close>

definition get_head_to_head_record :: "tables \<Rightarrow> string \<Rightarrow> string \<Rightarrow> int \<Rightarrow> head_to_head" where
  "get_head_to_head_record d team1 team2 draw_total =
     (let team1_rating = overall (get_team_rating d team1);
          team2_rating = overall (get_team_rating d team2);
          w1 = (if team2_rating < team1_rating
                then py_int (of_int draw_total * (1 / 2 + (team1_rating - team2_rating) / 100))
                else py_int (of_int draw_total * (1 / 2 - (team2_rating - team1_rating) / 100)));
          w2 = draw_total - w1
      in \<lparr>total_matches = draw_total, team1_wins = w1, team2_wins = w2,
          team1_win_pct = (if 0 < draw_total then of_int w1 / of_int draw_total * 100 else 50),
          team2_win_pct = (if 0 < draw_total then of_int w2 / of_int draw_total * 100 else 50)\<rparr>)"

text \<open>
  The body of \<^verbatim>\<open>calculate_win_probability\<close>, one definition per commented block of
  the source. First the batting-versus-bowling values with the venue factor applied
  (lines 155-169): the two divisions can raise, the values themselves are not read again.
\<close>

definition bat_vs_bowl :: "rating \<Rightarrow> rating \<Rightarrow> venue_impact \<Rightarrow> error + rat \<times> rat" where
  "bat_vs_bowl team1_ratings team2_ratings vi =
     (case py_truediv (batting team1_ratings) (bowling team2_ratings + 20) of
        Inl e \<Rightarrow> Inl e
      | Inr q1 \<Rightarrow>
     (case py_truediv (batting team2_ratings) (bowling team1_ratings + 20) of
        Inl e \<Rightarrow> Inl e
      | Inr q2 \<Rightarrow>
          (let team1_bat_vs_team2_bowl = q1 * 100;
               team2_bat_vs_team1_bowl = q2 * 100;
               venue_bat_impact = bat_first_win_pct vi / 50;
               venue_bowl_impact = bowl_first_win_pct vi / 50
           in if 50 < bat_first_win_pct vi
              then Inr (team1_bat_vs_team2_bowl * venue_bat_impact,
                        team2_bat_vs_team1_bowl * venue_bat_impact)
              else Inr (team1_bat_vs_team2_bowl * venue_bowl_impact,
                        team2_bat_vs_team1_bowl * venue_bowl_impact))))"

text \<open>
  Lines 171-178: the base probability from the overall ratings, blended with the
  head-to-head percentage at weight 0.1. The result is team 1's probability before the
  toss adjustment; team 2's is \<open>100\<close> minus it.
\<close>

definition base_prob_h2h :: "rating \<Rightarrow> rating \<Rightarrow> head_to_head \<Rightarrow> rat" where
  "base_prob_h2h team1_ratings team2_ratings h2h =
     (let base_prob_team1 = 50 + (overall team1_ratings - overall team2_ratings) * (3 / 2);
          h2h_factor = 1 / 10
      in base_prob_team1 * (1 - h2h_factor) + team1_win_pct h2h * h2h_factor)"

text \<open>Lines 180-205: the toss advantage goes to the side that won the toss.\<close>

definition apply_toss :: "venue_impact \<Rightarrow> string \<Rightarrow> string \<Rightarrow> rat \<times> rat \<Rightarrow> rat \<times> rat" where
  "apply_toss vi toss_winner toss_decision p =
     (let toss_advantage = 15; base_prob_team1 = fst p; base_prob_team2 = snd p
      in if toss_winner = ''Team A''
         then (if toss_decision = ''Bat''
               then (if 50 < bat_first_win_pct vi
                     then (base_prob_team1 + toss_advantage, base_prob_team2)
                     else (base_prob_team1 + toss_advantage * (1 / 2), base_prob_team2))
               else (if 50 < bowl_first_win_pct vi
                     then (base_prob_team1 + toss_advantage, base_prob_team2)
                     else (base_prob_team1 + toss_advantage * (1 / 2), base_prob_team2)))
         else (if toss_decision = ''Bat''
               then (if 50 < bat_first_win_pct vi
                     then (base_prob_team1, base_prob_team2 + toss_advantage)
                     else (base_prob_team1, base_prob_team2 + toss_advantage * (1 / 2)))
               else (if 50 < bowl_first_win_pct vi
                     then (base_prob_team1, base_prob_team2 + toss_advantage)
                     else (base_prob_team1, base_prob_team2 + toss_advantage * (1 / 2)))))"

text \<open>Lines 207-211: normalisation to a sum of 100.\<close>

definition normalize_probs :: "rat \<times> rat \<Rightarrow> error + rat \<times> rat" where
  "normalize_probs p =
     (let base_prob_team1 = fst p; base_prob_team2 = snd p;
          total_prob = base_prob_team1 + base_prob_team2
      in if total_prob \<noteq> 100
         then (case py_truediv base_prob_team1 total_prob of
                 Inl e \<Rightarrow> Inl e
               | Inr q1 \<Rightarrow>
              (case py_truediv base_prob_team2 total_prob of
                 Inl e \<Rightarrow> Inl e
               | Inr q2 \<Rightarrow> Inr (q1 * 100, q2 * 100)))
         else Inr (base_prob_team1, base_prob_team2))"

text \<open>Lines 213-215 and 241: the clamp, the complement and the two roundings.\<close>

definition clamp_probs :: "rat \<Rightarrow> rat \<times> rat" where
  "clamp_probs base_prob_team1 =
     (let b1 = max 15 (min 85 base_prob_team1); b2 = 100 - b1
      in (py_round1 b1, py_round1 b2))"

text \<open>
  The returned dictionary, without its explanatory strings (key factor, players to watch,
  venue, head-to-head and toss texts), which no later computation reads.
\<close>

record win_probability =
  a_team1 :: string
  a_team2 :: string
  a_venue :: string
  win_prob :: "rat \<times> rat"

definition calculate_win_probability ::
    "tables \<Rightarrow> int \<Rightarrow> string \<Rightarrow> string \<Rightarrow> int \<Rightarrow> error + win_probability" where
  "calculate_win_probability d match_id toss_winner toss_decision draw_total =
     (case get_match_details d match_id of
        Inl e \<Rightarrow> Inl e
      | Inr match_details \<Rightarrow>
          (let team1 = Team1 match_details;
               team2 = Team2 match_details;
               v = Venue match_details;
               team1_ratings = get_team_rating d team1;
               team2_ratings = get_team_rating d team2;
               vi = get_venue_impact d v;
               h2h = get_head_to_head_record d team1 team2 draw_total
           in case bat_vs_bowl team1_ratings team2_ratings vi of
                Inl e \<Rightarrow> Inl e
              | Inr edges \<Rightarrow>
                  (let base_prob_team1 = base_prob_h2h team1_ratings team2_ratings h2h;
                       base_prob_team2 = 100 - base_prob_team1
                   in case normalize_probs
                             (apply_toss vi toss_winner toss_decision
                                (base_prob_team1, base_prob_team2)) of
                        Inl e \<Rightarrow> Inl e
                      | Inr p \<Rightarrow>
                          Inr \<lparr>a_team1 = team1, a_team2 = team2, a_venue = v,
                               win_prob = clamp_probs (fst p)\<rparr>)))"

section \<open>The tournament simulator\<close>

text \<open>
  The values one simulated match draws from \<^verbatim>\<open>random\<close>: the toss winner
  (\<^verbatim>\<open>random.choice(['Team A', 'Team B'])\<close> picked the first element), the toss decision
  (\<^verbatim>\<open>random.choice(['Bat', 'Bowl'])\<close> picked the first element, and the
  \<^verbatim>\<open>random.random()\<close> of the biased choice), the head-to-head total
  (\<^verbatim>\<open>random.randint(8, 15)\<close>) and the outcome (\<^verbatim>\<open>random.random()\<close>). The random
  source is a sequence of such values, and the simulator counts the matches it has
  simulated: match number \<open>k\<close> reads \<open>rs k\<close>.

  The same sequence carries the one other thing a run takes from its environment. The two
  \<^verbatim>\<open>sort_values\<close> calls of a run (in \<^verbatim>\<open>simulate_group_stage\<close> and in
  \<^verbatim>\<open>determine_playoffs\<close>) use the default sort kind, which is not stable: the order of
  rows with equal points is the library's choice. That choice is the pair
  \<open>standings_ties\<close>, \<open>playoff_ties\<close> (see \<open>permute\<close> below), read at the number of the match
  that follows the group stage.
\<close>

record draws =
  toss_pick :: bool
  decision_pick :: bool
  decision_u :: rat
  h2h_total :: int
  outcome_u :: rat
  standings_ties :: "nat list"
  playoff_ties :: "nat list"

definition teams :: "tables \<Rightarrow> string list" where
  "teams d = map Team (team_ratings_df d)"

definition simulate_optimal_toss_decision :: "tables \<Rightarrow> string \<Rightarrow> draws \<Rightarrow> string" where
  "simulate_optimal_toss_decision d v dr =
     (case filter (\<lambda>row. venue row = v) (venue_stats_df d) of
        [] \<Rightarrow> (if decision_pick dr then ''Bat'' else ''Bowl'')
      | row # _ \<Rightarrow>
          (let bat_first = win_percent_bat_first row
           in if 52 < bat_first then (if 1 / 5 < decision_u dr then ''Bat'' else ''Bowl'')
              else if bat_first < 48 then (if 1 / 5 < decision_u dr then ''Bowl'' else ''Bat'')
              else (if decision_pick dr then ''Bat'' else ''Bowl'')))"

record match_result =
  r_match_id :: int
  r_team1 :: string
  r_team2 :: string
  r_venue :: string
  winner :: string
  loser :: string
  win_prob_team1 :: rat
  win_prob_team2 :: rat
  r_toss_winner :: string
  r_toss_decision :: string

definition simulate_single_match :: "tables \<Rightarrow> fixture \<Rightarrow> draws \<Rightarrow> error + match_result" where
  "simulate_single_match d match_data dr =
     (let mid = Match_ID match_data;
          team1 = Team1 match_data;
          team2 = Team2 match_data;
          v = Venue match_data;
          toss_w = (if toss_pick dr then ''Team A'' else ''Team B'');
          toss_d = simulate_optimal_toss_decision d v dr
      in case calculate_win_probability d mid toss_w toss_d (h2h_total dr) of
           Inl e \<Rightarrow> Inl e
         | Inr res \<Rightarrow>
             (let team1_prob = fst (win_prob res) / 100
              in Inr \<lparr>r_match_id = mid, r_team1 = team1, r_team2 = team2, r_venue = v,
                      winner = (if outcome_u dr < team1_prob then team1 else team2),
                      loser = (if outcome_u dr < team1_prob then team2 else team1),
                      win_prob_team1 = fst (win_prob res),
                      win_prob_team2 = snd (win_prob res),
                      r_toss_winner = toss_w, r_toss_decision = toss_d\<rparr>))"

text \<open>
  \<^verbatim>\<open>team_stats\<close> is a dict keyed by the teams of the ratings table: an association list
  in insertion order, one entry per key. Updating an entry of a missing key raises
  \<^verbatim>\<open>KeyError\<close>.
\<close>

record team_stat =
  wins :: int
  losses :: int
  points :: int

record standing = team_stat +
  team :: string

definition dict_keys :: "string list \<Rightarrow> string list" where
  "dict_keys ks = rev (remdups (rev ks))"

definition dict_update ::
    "string \<Rightarrow> (team_stat \<Rightarrow> team_stat) \<Rightarrow> (string \<times> team_stat) list
      \<Rightarrow> error + (string \<times> team_stat) list" where
  "dict_update k f ts =
     (if k \<in> set (map fst ts)
      then Inr (map (\<lambda>(k', s). if k' = k then (k', f s) else (k', s)) ts)
      else Inl (KeyError k))"

text \<open>The loop of \<^verbatim>\<open>simulate_group_stage\<close> over the schedule rows.\<close>

fun group_stage_loop ::
    "tables \<Rightarrow> (nat \<Rightarrow> draws) \<Rightarrow> fixture list
      \<Rightarrow> (string \<times> team_stat) list \<times> match_result list \<times> nat
      \<Rightarrow> error + (string \<times> team_stat) list \<times> match_result list \<times> nat" where
  "group_stage_loop d rs [] acc = Inr acc"
| "group_stage_loop d rs (match # rest) (team_stats, match_results, k) =
     (case simulate_single_match d match (rs k) of
        Inl e \<Rightarrow> Inl e
      | Inr result \<Rightarrow>
     (case dict_update (winner result) (\<lambda>s. s\<lparr>wins := wins s + 1\<rparr>) team_stats of
        Inl e \<Rightarrow> Inl e
      | Inr ts1 \<Rightarrow>
     (case dict_update (winner result) (\<lambda>s. s\<lparr>points := points s + 2\<rparr>) ts1 of
        Inl e \<Rightarrow> Inl e
      | Inr ts2 \<Rightarrow>
     (case dict_update (loser result) (\<lambda>s. s\<lparr>losses := losses s + 1\<rparr>) ts2 of
        Inl e \<Rightarrow> Inl e
      | Inr ts3 \<Rightarrow>
          group_stage_loop d rs rest (ts3, match_results @ [result], Suc k)))))"

text \<open>
  A rearrangement of a list given by a list of choices: each choice picks (modulo the
  number of rows left) the row that comes next; rows left when the choices end keep their
  order. Every rearrangement of the rows is \<open>permute cs rows\<close> for some \<open>cs\<close>
  (\<open>permute_any\<close>).
\<close>

fun permute :: "nat list \<Rightarrow> 'a list \<Rightarrow> 'a list" where
  "permute [] rows = rows"
| "permute (c # cs) rows =
     (if rows = [] then []
      else (let i = c mod length rows
            in rows ! i # permute cs (take i rows @ drop (Suc i) rows)))"

text \<open>
  \<^verbatim>\<open>sort_values(column, ascending=False)\<close>: descending by the column. The default sort
  kind (\<^verbatim>\<open>quicksort\<close>) is not stable, so rows of equal value come in an order that the
  call does not determine: the rows are rearranged by \<open>ties\<close> and then sorted stably, which
  yields every descending arrangement of the rows for a suitable \<open>ties\<close>
  (\<open>sort_values_desc_any\<close>) and the incoming order of equal rows for \<open>ties = []\<close>.
  A frame built from an empty list of rows has no columns, and sorting it by a column
  raises \<^verbatim>\<open>KeyError\<close>.
\<close>

definition sort_values_desc ::
    "nat list \<Rightarrow> ('a \<Rightarrow> 'b::linordered_idom) \<Rightarrow> 'a list \<Rightarrow> 'a list" where
  "sort_values_desc ties col rows = sort_key (\<lambda>row. - col row) (permute ties rows)"

record group_result =
  g_standings :: "standing list"
  g_match_results :: "match_result list"

definition simulate_group_stage ::
    "tables \<Rightarrow> (nat \<Rightarrow> draws) \<Rightarrow> nat \<Rightarrow> error + group_result \<times> nat" where
  "simulate_group_stage d rs k =
     (case group_stage_loop d rs (schedule_df d)
             (map (\<lambda>t. (t, \<lparr>wins = 0, losses = 0, points = 0\<rparr>)) (dict_keys (teams d)), [], k) of
        Inl e \<Rightarrow> Inl e
      | Inr (team_stats, match_results, k') \<Rightarrow>
          (let standings_rows =
                 map (\<lambda>(t, s). \<lparr>wins = wins s, losses = losses s, points = points s, team = t\<rparr>)
                   team_stats
           in if standings_rows = [] then Inl (KeyError ''points'')
              else Inr (\<lparr>g_standings =
                           sort_values_desc (standings_ties (rs k')) points standings_rows,
                         g_match_results = match_results\<rparr>, k')))"

record playoff_teams =
  top_3 :: "string list"
  eliminator :: "string list"
  final_4 :: "string list"

definition determine_playoffs :: "nat list \<Rightarrow> standing list \<Rightarrow> playoff_teams" where
  "determine_playoffs ties standings_df =
     (let sorted_df = sort_values_desc ties points standings_df;
          top = map team (take 3 sorted_df);
          eliminator_teams =
            (if 5 \<le> length sorted_df then map team (take 2 (drop 3 sorted_df)) else [])
      in \<lparr>top_3 = top, eliminator = eliminator_teams,
          final_4 = (if eliminator_teams \<noteq> [] then top @ take 1 eliminator_teams else top)\<rparr>)"

text \<open>
  \<^verbatim>\<open>simulate_playoffs\<close>: the final is one more simulated match, with the id 999 and the
  venue \<^verbatim>\<open>"Lord's, London"\<close>. The result is the champion and the updated match counter.
\<close>

definition lords :: string where
  "lords = ''Lord'' @ [CHR 0x27] @ ''s, London''"

definition simulate_playoffs ::
    "tables \<Rightarrow> playoff_teams \<Rightarrow> (nat \<Rightarrow> draws) \<Rightarrow> nat \<Rightarrow> error + string \<times> nat" where
  "simulate_playoffs d pt rs k =
     (if length (top_3 pt) < 3
      then (case top_3 pt of
              t # _ \<Rightarrow> Inr (t, k)
            | [] \<Rightarrow> (case teams d of t # _ \<Rightarrow> Inr (t, k) | [] \<Rightarrow> Inl IndexError))
      else (let team1 = top_3 pt ! 0;
                team2 = top_3 pt ! 1;
                final_match = \<lparr>Match_ID = 999, Team1 = team1, Team2 = team2, Venue = lords\<rparr>
            in case simulate_single_match d final_match (rs k) of
                 Inl e \<Rightarrow> Inl e
               | Inr final_result \<Rightarrow> Inr (winner final_result, Suc k)))"

record sim_result =
  sim_winner :: string
  sim_standings :: "standing list"
  sim_playoff_teams :: playoff_teams
  sim_match_results :: "match_result list"

definition run_simulation :: "tables \<Rightarrow> (nat \<Rightarrow> draws) \<Rightarrow> nat \<Rightarrow> error + sim_result \<times> nat" where
  "run_simulation d rs k =
     (case simulate_group_stage d rs k of
        Inl e \<Rightarrow> Inl e
      | Inr (grp, k1) \<Rightarrow>
          (let pt = determine_playoffs (playoff_ties (rs k1)) (g_standings grp)
           in case simulate_playoffs d pt rs k1 of
                Inl e \<Rightarrow> Inl e
              | Inr (w, k2) \<Rightarrow>
                  Inr (\<lparr>sim_winner = w, sim_standings = g_standings grp,
                        sim_playoff_teams = pt,
                        sim_match_results = g_match_results grp\<rparr>, k2)))"

text \<open>
  The accumulators of \<^verbatim>\<open>run_multiple_simulations\<close>. The two
  \<^verbatim>\<open>defaultdict\<close>s are total functions with the default value (0, the empty list).
\<close>

record simulation_data =
  winners :: "string list"
  playoff_appearances :: "string \<Rightarrow> int"
  final_standings :: "string \<Rightarrow> int list"
  sample_match_results :: "match_result list"

definition count_appearances :: "string list \<Rightarrow> (string \<Rightarrow> int) \<Rightarrow> string \<Rightarrow> int" where
  "count_appearances ts pa = foldl (\<lambda>m t. m(t := m t + 1)) pa ts"

definition track_run :: "nat \<Rightarrow> sim_result \<Rightarrow> simulation_data \<Rightarrow> simulation_data" where
  "track_run i res sd =
     \<lparr>winners = winners sd @ [sim_winner res],
      playoff_appearances =
        count_appearances (eliminator (sim_playoff_teams res))
          (count_appearances (top_3 (sim_playoff_teams res)) (playoff_appearances sd)),
      final_standings =
        foldl (\<lambda>m row. m(team row := m (team row) @ [points row])) (final_standings sd)
          (sim_standings res),
      sample_match_results =
        (if i = 0 then sim_match_results res else sample_match_results sd)\<rparr>"

fun simulations_loop ::
    "tables \<Rightarrow> (nat \<Rightarrow> draws) \<Rightarrow> nat \<Rightarrow> nat \<Rightarrow> simulation_data \<times> nat
      \<Rightarrow> error + simulation_data \<times> nat" where
  "simulations_loop d rs 0 i acc = Inr acc"
| "simulations_loop d rs (Suc m) i (sd, k) =
     (case run_simulation d rs k of
        Inl e \<Rightarrow> Inl e
      | Inr (res, k') \<Rightarrow> simulations_loop d rs m (Suc i) (track_run i res sd, k'))"

text \<open>
  \<^verbatim>\<open>run_multiple_simulations\<close> for \<^verbatim>\<open>num_simulations = n\<close>, the matches numbered
  from 0; \<^verbatim>\<open>range(n)\<close> is empty for \<open>n \<le> 0\<close>.
\<close>

definition run_multiple_simulations ::
    "tables \<Rightarrow> int \<Rightarrow> (nat \<Rightarrow> draws) \<Rightarrow> error + simulation_data" where
  "run_multiple_simulations d n rs =
     (case simulations_loop d rs (nat n) 0
             (\<lparr>winners = [], playoff_appearances = (\<lambda>_. 0), final_standings = (\<lambda>_. []),
               sample_match_results = []\<rparr>, 0) of
        Inl e \<Rightarrow> Inl e
      | Inr (sd, _) \<Rightarrow> Inr sd)"

record analysis_row =
  row_Team :: string
  Win_Probability :: rat
  Playoff_Probability :: rat
  Titles_Won :: int
  Playoff_Appearances :: int

text \<open>The loop of \<^verbatim>\<open>analyze_results\<close> over \<^verbatim>\<open>self.teams\<close>.\<close>

fun analysis_rows :: "int \<Rightarrow> simulation_data \<Rightarrow> string list \<Rightarrow> error + analysis_row list" where
  "analysis_rows n sd [] = Inr []"
| "analysis_rows n sd (t # ts) =
     (case py_truediv (of_nat (count_list (winners sd) t)) (of_int n) of
        Inl e \<Rightarrow> Inl e
      | Inr q1 \<Rightarrow>
     (case py_truediv (of_int (playoff_appearances sd t)) (of_int n) of
        Inl e \<Rightarrow> Inl e
      | Inr q2 \<Rightarrow>
     (case analysis_rows n sd ts of
        Inl e \<Rightarrow> Inl e
      | Inr rows \<Rightarrow>
          Inr (\<lparr>row_Team = t, Win_Probability = py_round1 (q1 * 100),
                Playoff_Probability = py_round1 (q2 * 100),
                Titles_Won = int (count_list (winners sd) t),
                Playoff_Appearances = playoff_appearances sd t\<rparr> # rows))))"

text \<open>
  \<^verbatim>\<open>analyze_results\<close>; \<open>ties\<close> is the order in which its \<^verbatim>\<open>sort_values\<close> leaves rows of
  equal win probability.
\<close>

definition analyze_results ::
    "tables \<Rightarrow> int \<Rightarrow> nat list \<Rightarrow> simulation_data \<Rightarrow> error + analysis_row list" where
  "analyze_results d n ties sd =
     (case analysis_rows n sd (teams d) of
        Inl e \<Rightarrow> Inl e
      | Inr rows \<Rightarrow>
          if rows = [] then Inl (KeyError ''Win_Probability_%'')
          else Inr (sort_values_desc ties Win_Probability rows))"

record crucial_match =
  c_match_id :: int
  c_teams :: string
  c_venue :: string
  c_winner :: string
  importance_score :: rat
  prob_difference :: rat

text \<open>
  \<^verbatim>\<open>nlargest(n, column)\<close> (with the default \<^verbatim>\<open>keep='first'\<close>): the first \<open>n\<close> rows in
  descending order of the column, rows of equal value in table order (the selection sorts
  with the stable kind). The column has to be numeric: the ratings table read from a file
  with no data row has columns of dtype \<^verbatim>\<open>object\<close>, and \<^verbatim>\<open>nlargest\<close> raises \<^verbatim>\<open>TypeError\<close>.
\<close>

definition nlargest :: "nat \<Rightarrow> ('a \<Rightarrow> 'b::linordered_idom) \<Rightarrow> 'a list \<Rightarrow> error + 'a list" where
  "nlargest n col rows =
     (if rows = [] then Inl TypeError else Inr (take n (sort_key (\<lambda>row. - col row) rows)))"

text \<open>Line 239: the names of the four highest-rated teams.\<close>

definition top_teams :: "tables \<Rightarrow> error + string list" where
  "top_teams d =
     (case nlargest 4 Overall_Rating (team_ratings_df d) of
        Inl e \<Rightarrow> Inl e
      | Inr rows \<Rightarrow> Inr (map Team rows))"

definition crucial_of :: "match_result \<Rightarrow> crucial_match" where
  "crucial_of m =
     (let prob_diff = \<bar>win_prob_team1 m - win_prob_team2 m\<bar>;
          importance = 100 - prob_diff
      in \<lparr>c_match_id = r_match_id m,
          c_teams = r_team1 m @ '' vs '' @ r_team2 m,
          c_venue = r_venue m,
          c_winner = winner m,
          importance_score = py_round1 importance,
          prob_difference = py_round1 prob_diff\<rparr>)"

text \<open>
  \<^verbatim>\<open>list.sort(key=..., reverse=True)\<close>: descending by the key; the sort is stable and
  \<^verbatim>\<open>reverse\<close> keeps elements of equal key in their incoming order.
\<close>

definition sort_reverse :: "('a \<Rightarrow> 'b::linordered_idom) \<Rightarrow> 'a list \<Rightarrow> 'a list" where
  "sort_reverse key xs = sort_key (\<lambda>x. - key x) xs"

definition find_crucial_matches ::
    "tables \<Rightarrow> match_result list \<Rightarrow> error + crucial_match list" where
  "find_crucial_matches d match_results =
     (case top_teams d of
        Inl e \<Rightarrow> Inl e
      | Inr top4 \<Rightarrow>
          (let crucial_matches =
                 map crucial_of
                   (filter (\<lambda>m. r_team1 m \<in> set top4 \<and> r_team2 m \<in> set top4) match_results)
           in Inr (take 5 (sort_reverse importance_score crucial_matches))))"

section \<open>Well-formed data, derived quantities and example inputs\<close>

text \<open>
  The only arithmetic failure of \<^verbatim>\<open>calculate_win_probability\<close> is a bowling rating of
  \<open>-20\<close>, which makes a divisor zero. Reference data is well-formed when no row has it.
\<close>

definition ratings_ok :: "tables \<Rightarrow> bool" where
  "ratings_ok d = list_all (\<lambda>row. Bowl_Rating row \<noteq> - 20) (team_ratings_df d)"

text \<open>
  Team 1's probability after the head-to-head blend, before the toss adjustment, the
  normalisation and the clamp (the value of \<^verbatim>\<open>base_prob_team1\<close> at line 177).
\<close>

definition pre_toss_prob :: "tables \<Rightarrow> string \<Rightarrow> string \<Rightarrow> int \<Rightarrow> rat" where
  "pre_toss_prob d team1 team2 draw_total =
     base_prob_h2h (get_team_rating d team1) (get_team_rating d team2)
       (get_head_to_head_record d team1 team2 draw_total)"

text \<open>Example tables: three rated teams, two fixtures, one venue profile.\<close>

definition demo_tables :: tables where
  "demo_tables =
     \<lparr>schedule_df =
        [\<lparr>Match_ID = 1, Team1 = ''Alpha'', Team2 = ''Beta'', Venue = ''Oval''\<rparr>,
         \<lparr>Match_ID = 2, Team1 = ''Beta'', Team2 = ''Gamma'', Venue = ''Park''\<rparr>],
      team_ratings_df =
        [\<lparr>Team = ''Alpha'', Bat_Rating = 62, Bowl_Rating = 58, Overall_Rating = 60\<rparr>,
         \<lparr>Team = ''Beta'', Bat_Rating = 51, Bowl_Rating = 59, Overall_Rating = 55\<rparr>,
         \<lparr>Team = ''Gamma'', Bat_Rating = 40, Bowl_Rating = 44, Overall_Rating = 42\<rparr>],
      venue_stats_df =
        [\<lparr>venue = ''Oval'', win_percent_bat_first = 60, win_percent_bowl_first = 40,
          avg_first_innings_score = 155, run_rate = 9\<rparr>]\<rparr>"

text \<open>The same tables with every overall rating kept and the sub-ratings changed.\<close>

definition demo_tables_resplit :: tables where
  "demo_tables_resplit =
     \<lparr>schedule_df =
        [\<lparr>Match_ID = 1, Team1 = ''Alpha'', Team2 = ''Beta'', Venue = ''Oval''\<rparr>,
         \<lparr>Match_ID = 2, Team1 = ''Beta'', Team2 = ''Gamma'', Venue = ''Park''\<rparr>],
      team_ratings_df =
        [\<lparr>Team = ''Alpha'', Bat_Rating = 71, Bowl_Rating = 49, Overall_Rating = 60\<rparr>,
         \<lparr>Team = ''Beta'', Bat_Rating = 45, Bowl_Rating = 65, Overall_Rating = 55\<rparr>,
         \<lparr>Team = ''Gamma'', Bat_Rating = 30, Bowl_Rating = 54, Overall_Rating = 42\<rparr>],
      venue_stats_df =
        [\<lparr>venue = ''Oval'', win_percent_bat_first = 60, win_percent_bowl_first = 40,
          avg_first_innings_score = 155, run_rate = 9\<rparr>]\<rparr>"

text \<open>Two teams of equal overall rating at a venue with the neutral percentages.\<close>

definition even_tables :: tables where
  "even_tables =
     \<lparr>schedule_df =
        [\<lparr>Match_ID = 1, Team1 = ''Alpha'', Team2 = ''Beta'', Venue = ''Neutral Ground''\<rparr>],
      team_ratings_df =
        [\<lparr>Team = ''Alpha'', Bat_Rating = 62, Bowl_Rating = 48, Overall_Rating = 55\<rparr>,
         \<lparr>Team = ''Beta'', Bat_Rating = 51, Bowl_Rating = 59, Overall_Rating = 55\<rparr>],
      venue_stats_df =
        [\<lparr>venue = ''Neutral Ground'', win_percent_bat_first = 50, win_percent_bowl_first = 50,
          avg_first_innings_score = 150, run_rate = 17 / 2\<rparr>]\<rparr>"


text \<open>
  What one simulated match has to do with its fixture: it carries the fixture's id, teams
  and venue, and one of the two teams is the winner and the other the loser.
\<close>

definition played :: "fixture \<Rightarrow> match_result \<Rightarrow> bool" where
  "played f r =
     (r_match_id r = Match_ID f \<and> r_team1 r = Team1 f \<and> r_team2 r = Team2 f
      \<and> r_venue r = Venue f
      \<and> (winner r = Team1 f \<and> loser r = Team2 f \<or> winner r = Team2 f \<and> loser r = Team1 f))"

text \<open>An example random source.\<close>

definition demo_draws :: "nat \<Rightarrow> draws" where
  "demo_draws k =
     \<lparr>toss_pick = even k, decision_pick = True, decision_u = 1 / 2,
      h2h_total = 8 + int (k mod 8), outcome_u = (if even k then 1 / 4 else 3 / 4),
      standings_ties = [k, 1], playoff_ties = [2, k]\<rparr>"

text \<open>Totals and the points rule over a \<^verbatim>\<open>team_stats\<close> dictionary, and its standings rows.\<close>

definition wins_total :: "(string \<times> team_stat) list \<Rightarrow> int" where
  "wins_total ts = sum_list (map (\<lambda>(k, s). wins s) ts)"

definition losses_total :: "(string \<times> team_stat) list \<Rightarrow> int" where
  "losses_total ts = sum_list (map (\<lambda>(k, s). losses s) ts)"

definition two_per_win :: "(string \<times> team_stat) list \<Rightarrow> bool" where
  "two_per_win ts = list_all (\<lambda>(k, s). points s = 2 * wins s) ts"

definition standings_of :: "(string \<times> team_stat) list \<Rightarrow> standing list" where
  "standings_of ts =
     map (\<lambda>(t, s). \<lparr>wins = wins s, losses = losses s, points = points s, team = t\<rparr>) ts"

text \<open>Example tables with a fixture of a team that has no rating row, at an unknown venue.\<close>

definition unrated_tables :: tables where
  "unrated_tables =
     \<lparr>schedule_df =
        [\<lparr>Match_ID = 1, Team1 = ''Alpha'', Team2 = ''Gamma'', Venue = ''Nowhere''\<rparr>],
      team_ratings_df =
        [\<lparr>Team = ''Alpha'', Bat_Rating = 62, Bowl_Rating = 58, Overall_Rating = 60\<rparr>,
         \<lparr>Team = ''Beta'', Bat_Rating = 51, Bowl_Rating = 59, Overall_Rating = 55\<rparr>],
      venue_stats_df = []\<rparr>"

text \<open>Example tables whose schedule has a fixture with the id 999.\<close>

definition final_tables :: tables where
  "final_tables =
     \<lparr>schedule_df =
        [\<lparr>Match_ID = 1, Team1 = ''Alpha'', Team2 = ''Beta'', Venue = ''Oval''\<rparr>,
         \<lparr>Match_ID = 2, Team1 = ''Beta'', Team2 = ''Gamma'', Venue = ''Park''\<rparr>,
         \<lparr>Match_ID = 999, Team1 = ''Gamma'', Team2 = ''Alpha'', Venue = ''Oval''\<rparr>],
      team_ratings_df =
        [\<lparr>Team = ''Alpha'', Bat_Rating = 62, Bowl_Rating = 58, Overall_Rating = 60\<rparr>,
         \<lparr>Team = ''Beta'', Bat_Rating = 51, Bowl_Rating = 59, Overall_Rating = 55\<rparr>,
         \<lparr>Team = ''Gamma'', Bat_Rating = 40, Bowl_Rating = 44, Overall_Rating = 42\<rparr>],
      venue_stats_df =
        [\<lparr>venue = ''Oval'', win_percent_bat_first = 60, win_percent_bowl_first = 40,
          avg_first_innings_score = 155, run_rate = 9\<rparr>]\<rparr>"

text \<open>
  The invariant of the Monte Carlo loop behind C8: no team has more titles than playoff
  appearances.
\<close>

definition titles_within_appearances :: "simulation_data \<Rightarrow> bool" where
  "titles_within_appearances sd =
     (\<forall>t. int (count_list (winners sd) t) \<le> playoff_appearances sd t)"

text \<open>
  Example tables with six rated teams, and a sample of match results over them (team 1
  wins each, with the given probability).
\<close>

definition league_tables :: tables where
  "league_tables =
     \<lparr>schedule_df =
        [\<lparr>Match_ID = 1, Team1 = ''Alpha'', Team2 = ''Beta'', Venue = ''Oval''\<rparr>,
         \<lparr>Match_ID = 2, Team1 = ''Gamma'', Team2 = ''Delta'', Venue = ''Park''\<rparr>,
         \<lparr>Match_ID = 3, Team1 = ''Epsilon'', Team2 = ''Zeta'', Venue = ''Oval''\<rparr>],
      team_ratings_df =
        [\<lparr>Team = ''Alpha'', Bat_Rating = 62, Bowl_Rating = 58, Overall_Rating = 60\<rparr>,
         \<lparr>Team = ''Beta'', Bat_Rating = 51, Bowl_Rating = 59, Overall_Rating = 55\<rparr>,
         \<lparr>Team = ''Gamma'', Bat_Rating = 40, Bowl_Rating = 44, Overall_Rating = 42\<rparr>,
         \<lparr>Team = ''Delta'', Bat_Rating = 57, Bowl_Rating = 59, Overall_Rating = 58\<rparr>,
         \<lparr>Team = ''Epsilon'', Bat_Rating = 50, Bowl_Rating = 52, Overall_Rating = 51\<rparr>,
         \<lparr>Team = ''Zeta'', Bat_Rating = 45, Bowl_Rating = 47, Overall_Rating = 46\<rparr>],
      venue_stats_df =
        [\<lparr>venue = ''Oval'', win_percent_bat_first = 60, win_percent_bowl_first = 40,
          avg_first_innings_score = 155, run_rate = 9\<rparr>]\<rparr>"

text \<open>
  A match result whose two probabilities have at most one decimal, as the values that
  \<^verbatim>\<open>round(x, 1)\<close> returns have.
\<close>

definition one_decimal :: "match_result \<Rightarrow> bool" where
  "one_decimal m =
     (py_round1 (win_prob_team1 m) = win_prob_team1 m
      \<and> py_round1 (win_prob_team2 m) = win_prob_team2 m)"

text \<open>A match of two of the given teams.\<close>

definition between :: "string list \<Rightarrow> match_result \<Rightarrow> bool" where
  "between ts m = (r_team1 m \<in> set ts \<and> r_team2 m \<in> set ts)"

text \<open>Example tables whose ratings file has the header line and no data row.\<close>

definition header_only_tables :: tables where
  "header_only_tables =
     \<lparr>schedule_df =
        [\<lparr>Match_ID = 1, Team1 = ''Alpha'', Team2 = ''Beta'', Venue = ''Oval''\<rparr>],
      team_ratings_df = [],
      venue_stats_df =
        [\<lparr>venue = ''Oval'', win_percent_bat_first = 60, win_percent_bowl_first = 40,
          avg_first_innings_score = 155, run_rate = 9\<rparr>]\<rparr>"

definition sample_result :: "int \<Rightarrow> string \<Rightarrow> string \<Rightarrow> rat \<Rightarrow> match_result" where
  "sample_result i t1 t2 p =
     \<lparr>r_match_id = i, r_team1 = t1, r_team2 = t2, r_venue = ''Oval'', winner = t1, loser = t2,
      win_prob_team1 = p, win_prob_team2 = 100 - p,
      r_toss_winner = ''Team A'', r_toss_decision = ''Bat''\<rparr>"

definition sample_results :: "match_result list" where
  "sample_results =
     [sample_result 1 ''Alpha'' ''Beta'' (619 / 10),
      sample_result 2 ''Gamma'' ''Delta'' (40),
      sample_result 3 ''Alpha'' ''Delta'' (521 / 10),
      sample_result 4 ''Delta'' ''Beta'' (85),
      sample_result 5 ''Beta'' ''Epsilon'' (50),
      sample_result 6 ''Epsilon'' ''Alpha'' (15),
      sample_result 7 ''Beta'' ''Alpha'' (479 / 10),
      sample_result 8 ''Epsilon'' ''Delta'' (45),
      sample_result 9 ''Beta'' ''Delta'' (50),
      sample_result 10 ''Alpha'' ''Epsilon'' (703 / 10)]"

section \<open>The match analyzer under binary64 rounding\<close>

text \<open>
  A Python float is a binary64 number: 53 significant bits, every operation rounded to the
  nearest representable value, ties to the even significand. \<open>expo x\<close> is the binary
  exponent of \<open>x\<close> (\<open>2 ^ expo x \<le> |x| < 2 ^ (expo x + 1)\<close>) and \<open>b64 x\<close> the nearest
  number with a 53-bit significand at that exponent. The exponent range is not bounded:
  overflow and subnormal numbers do not occur for the magnitudes of this program.
\<close>

definition expo :: "rat \<Rightarrow> int" where
  "expo x =
     (let p = fst (quotient_of \<bar>x\<bar>); q = snd (quotient_of \<bar>x\<bar>);
          k = bitlen p - bitlen q
      in if 2 powi k \<le> \<bar>x\<bar> then k else k - 1)"

definition b64 :: "rat \<Rightarrow> rat" where
  "b64 x =
     (if x = 0 then 0
      else let u = 2 powi (expo x - 52)
           in of_int (round_half_even (x / u)) * u)"

text \<open>
  The analyzer of section \<open>The match analyzer\<close> once more, with a rounding \<open>fl\<close> after
  every float operation of the source (the lookups of \<^verbatim>\<open>get_match_details\<close>,
  \<^verbatim>\<open>get_team_rating\<close> and \<^verbatim>\<open>get_venue_impact\<close> do no arithmetic and are shared).
  The literals \<^verbatim>\<open>0.5\<close>, \<^verbatim>\<open>1.5\<close>, \<^verbatim>\<open>15.0\<close>, \<^verbatim>\<open>50.0\<close> and \<^verbatim>\<open>100\<close> are binary64 numbers;
  \<^verbatim>\<open>0.1\<close> is not and is rounded. \<^verbatim>\<open>round(x, 1)\<close> rounds the exact value of the float
  \<open>x\<close> to the nearest tenth and returns the float nearest to that tenth. With the
  identity for \<open>fl\<close> these are the definitions of the exact rendering
  (\<open>exact_instance\<close>).
\<close>

definition py_truediv_fl :: "(rat \<Rightarrow> rat) \<Rightarrow> rat \<Rightarrow> rat \<Rightarrow> error + rat" where
  "py_truediv_fl fl a b = (if b = 0 then Inl ZeroDivisionError else Inr (fl (a / b)))"

definition py_round1_fl :: "(rat \<Rightarrow> rat) \<Rightarrow> rat \<Rightarrow> rat" where
  "py_round1_fl fl x = fl (py_round1 x)"

definition get_head_to_head_record_fl ::
    "(rat \<Rightarrow> rat) \<Rightarrow> tables \<Rightarrow> string \<Rightarrow> string \<Rightarrow> int \<Rightarrow> head_to_head" where
  "get_head_to_head_record_fl fl d team1 team2 draw_total =
     (let team1_rating = overall (get_team_rating d team1);
          team2_rating = overall (get_team_rating d team2);
          w1 = (if team2_rating < team1_rating
                then py_int (fl (of_int draw_total
                       * fl (1 / 2 + fl (fl (team1_rating - team2_rating) / 100))))
                else py_int (fl (of_int draw_total
                       * fl (1 / 2 - fl (fl (team2_rating - team1_rating) / 100)))));
          w2 = draw_total - w1
      in \<lparr>total_matches = draw_total, team1_wins = w1, team2_wins = w2,
          team1_win_pct =
            (if 0 < draw_total then fl (fl (of_int w1 / of_int draw_total) * 100) else 50),
          team2_win_pct =
            (if 0 < draw_total then fl (fl (of_int w2 / of_int draw_total) * 100) else 50)\<rparr>)"

definition bat_vs_bowl_fl ::
    "(rat \<Rightarrow> rat) \<Rightarrow> rating \<Rightarrow> rating \<Rightarrow> venue_impact \<Rightarrow> error + rat \<times> rat" where
  "bat_vs_bowl_fl fl team1_ratings team2_ratings vi =
     (case py_truediv_fl fl (batting team1_ratings) (fl (bowling team2_ratings + 20)) of
        Inl e \<Rightarrow> Inl e
      | Inr q1 \<Rightarrow>
     (case py_truediv_fl fl (batting team2_ratings) (fl (bowling team1_ratings + 20)) of
        Inl e \<Rightarrow> Inl e
      | Inr q2 \<Rightarrow>
          (let team1_bat_vs_team2_bowl = fl (q1 * 100);
               team2_bat_vs_team1_bowl = fl (q2 * 100);
               venue_bat_impact = fl (bat_first_win_pct vi / 50);
               venue_bowl_impact = fl (bowl_first_win_pct vi / 50)
           in if 50 < bat_first_win_pct vi
              then Inr (fl (team1_bat_vs_team2_bowl * venue_bat_impact),
                        fl (team2_bat_vs_team1_bowl * venue_bat_impact))
              else Inr (fl (team1_bat_vs_team2_bowl * venue_bowl_impact),
                        fl (team2_bat_vs_team1_bowl * venue_bowl_impact)))))"

definition base_prob_h2h_fl :: "(rat \<Rightarrow> rat) \<Rightarrow> rating \<Rightarrow> rating \<Rightarrow> head_to_head \<Rightarrow> rat" where
  "base_prob_h2h_fl fl team1_ratings team2_ratings h2h =
     (let base_prob_team1 =
            fl (50 + fl (fl (overall team1_ratings - overall team2_ratings) * (3 / 2)));
          h2h_factor = fl (1 / 10)
      in fl (fl (base_prob_team1 * fl (1 - h2h_factor)) + fl (team1_win_pct h2h * h2h_factor)))"

definition apply_toss_fl ::
    "(rat \<Rightarrow> rat) \<Rightarrow> venue_impact \<Rightarrow> string \<Rightarrow> string \<Rightarrow> rat \<times> rat \<Rightarrow> rat \<times> rat" where
  "apply_toss_fl fl vi toss_winner toss_decision p =
     (let toss_advantage = 15; base_prob_team1 = fst p; base_prob_team2 = snd p
      in if toss_winner = ''Team A''
         then (if toss_decision = ''Bat''
               then (if 50 < bat_first_win_pct vi
                     then (fl (base_prob_team1 + toss_advantage), base_prob_team2)
                     else (fl (base_prob_team1 + fl (toss_advantage * (1 / 2))), base_prob_team2))
               else (if 50 < bowl_first_win_pct vi
                     then (fl (base_prob_team1 + toss_advantage), base_prob_team2)
                     else (fl (base_prob_team1 + fl (toss_advantage * (1 / 2))), base_prob_team2)))
         else (if toss_decision = ''Bat''
               then (if 50 < bat_first_win_pct vi
                     then (base_prob_team1, fl (base_prob_team2 + toss_advantage))
                     else (base_prob_team1, fl (base_prob_team2 + fl (toss_advantage * (1 / 2)))))
               else (if 50 < bowl_first_win_pct vi
                     then (base_prob_team1, fl (base_prob_team2 + toss_advantage))
                     else (base_prob_team1, fl (base_prob_team2 + fl (toss_advantage * (1 / 2)))))))"

definition normalize_probs_fl :: "(rat \<Rightarrow> rat) \<Rightarrow> rat \<times> rat \<Rightarrow> error + rat \<times> rat" where
  "normalize_probs_fl fl p =
     (let base_prob_team1 = fst p; base_prob_team2 = snd p;
          total_prob = fl (base_prob_team1 + base_prob_team2)
      in if total_prob \<noteq> 100
         then (case py_truediv_fl fl base_prob_team1 total_prob of
                 Inl e \<Rightarrow> Inl e
               | Inr q1 \<Rightarrow>
              (case py_truediv_fl fl base_prob_team2 total_prob of
                 Inl e \<Rightarrow> Inl e
               | Inr q2 \<Rightarrow> Inr (fl (q1 * 100), fl (q2 * 100))))
         else Inr (base_prob_team1, base_prob_team2))"

definition clamp_probs_fl :: "(rat \<Rightarrow> rat) \<Rightarrow> rat \<Rightarrow> rat \<times> rat" where
  "clamp_probs_fl fl base_prob_team1 =
     (let b1 = max 15 (min 85 base_prob_team1); b2 = fl (100 - b1)
      in (py_round1_fl fl b1, py_round1_fl fl b2))"

definition calculate_win_probability_fl ::
    "(rat \<Rightarrow> rat) \<Rightarrow> tables \<Rightarrow> int \<Rightarrow> string \<Rightarrow> string \<Rightarrow> int \<Rightarrow> error + win_probability" where
  "calculate_win_probability_fl fl d match_id toss_winner toss_decision draw_total =
     (case get_match_details d match_id of
        Inl e \<Rightarrow> Inl e
      | Inr match_details \<Rightarrow>
          (let team1 = Team1 match_details;
               team2 = Team2 match_details;
               v = Venue match_details;
               team1_ratings = get_team_rating d team1;
               team2_ratings = get_team_rating d team2;
               vi = get_venue_impact d v;
               h2h = get_head_to_head_record_fl fl d team1 team2 draw_total
           in case bat_vs_bowl_fl fl team1_ratings team2_ratings vi of
                Inl e \<Rightarrow> Inl e
              | Inr edges \<Rightarrow>
                  (let base_prob_team1 = base_prob_h2h_fl fl team1_ratings team2_ratings h2h;
                       base_prob_team2 = fl (100 - base_prob_team1)
                   in case normalize_probs_fl fl
                             (apply_toss_fl fl vi toss_winner toss_decision
                                (base_prob_team1, base_prob_team2)) of
                        Inl e \<Rightarrow> Inl e
                      | Inr p \<Rightarrow>
                          Inr \<lparr>a_team1 = team1, a_team2 = team2, a_venue = v,
                               win_prob = clamp_probs_fl fl (fst p)\<rparr>)))"

definition pre_toss_prob_fl :: "(rat \<Rightarrow> rat) \<Rightarrow> tables \<Rightarrow> string \<Rightarrow> string \<Rightarrow> int \<Rightarrow> rat" where
  "pre_toss_prob_fl fl d team1 team2 draw_total =
     base_prob_h2h_fl fl (get_team_rating d team1) (get_team_rating d team2)
       (get_head_to_head_record_fl fl d team1 team2 draw_total)"

text \<open>Reference data whose overall ratings lie in [0, 100].\<close>

definition overall_in_range :: "tables \<Rightarrow> bool" where
  "overall_in_range d =
     list_all (\<lambda>row. 0 \<le> Overall_Rating row \<and> Overall_Rating row \<le> 100) (team_ratings_df d)"

text \<open>
  Example tables: one fixture; the overall rating of the first team is the binary64 number
  \<^verbatim>\<open>27.805555555555557\<close>.
\<close>

definition tie_tables :: tables where
  "tie_tables =
     \<lparr>schedule_df =
        [\<lparr>Match_ID = 1, Team1 = ''Alpha'', Team2 = ''Beta'', Venue = ''Oval''\<rparr>],
      team_ratings_df =
        [\<lparr>Team = ''Alpha'', Bat_Rating = 30, Bowl_Rating = 30,
          Overall_Rating = 1956642025606713 / 70368744177664\<rparr>,
         \<lparr>Team = ''Beta'', Bat_Rating = 50, Bowl_Rating = 50, Overall_Rating = 50\<rparr>],
      venue_stats_df =
        [\<lparr>venue = ''Oval'', win_percent_bat_first = 55, win_percent_bowl_first = 45,
          avg_first_innings_score = 155, run_rate = 9\<rparr>]\<rparr>"


section \<open>Rounding\<close>

lemma round_half_even_of_int: "round_half_even (of_int k) = k"
  by (simp add: round_half_even_def)

lemma round_half_even_lower: "q - 1 / 2 \<le> of_int (round_half_even q)"
  unfolding round_half_even_def Let_def by (auto; linarith)

lemma round_half_even_upper: "of_int (round_half_even q) \<le> q + 1 / 2"
  unfolding round_half_even_def Let_def by (auto; linarith)

lemma round_half_even_mono:
  assumes "q \<le> q'"
  shows "round_half_even q \<le> round_half_even q'"
proof (rule ccontr)
  assume "\<not> ?thesis"
  then have gt: "round_half_even q' + 1 \<le> round_half_even q" by simp
  then have "(of_int (round_half_even q') :: rat) + 1 \<le> of_int (round_half_even q)"
    by (metis of_int_1 of_int_add of_int_le_iff)
  with round_half_even_lower [of q'] round_half_even_upper [of q] assms
  have eq: "q' = q" by linarith
  with gt show False by simp
qed

lemma round_half_even_minus:
  assumes "even n"
  shows "round_half_even (of_int n - q) = n - round_half_even q"
proof -
  define f where "f = \<lfloor>q\<rfloor>"
  define r where "r = q - of_int f"
  have r: "0 \<le> r" "r < 1" and q: "q = of_int f + r"
    unfolding r_def f_def by linarith+
  consider "r = 0" | "0 < r" "r < 1 / 2" | "r = 1 / 2" | "1 / 2 < r"
    using r by linarith
  then show ?thesis
  proof cases
    case 1
    then have "q = of_int f" using q by simp
    then show ?thesis
      by (metis of_int_diff round_half_even_of_int)
  next
    case 2
    have fl: "\<lfloor>of_int n - q\<rfloor> = n - f - 1"
      unfolding q using 2 by linarith
    have "round_half_even (of_int n - q) = n - f"
      unfolding round_half_even_def Let_def fl using 2 q by auto
    moreover have "round_half_even q = f"
      unfolding round_half_even_def Let_def using 2 r_def f_def by auto
    ultimately show ?thesis by simp
  next
    case 3
    have fl: "\<lfloor>of_int n - q\<rfloor> = n - f - 1"
      unfolding q using 3 by linarith
    have a: "round_half_even (of_int n - q) = (if even (n - f - 1) then n - f - 1 else n - f)"
      unfolding round_half_even_def Let_def fl using 3 q by auto
    have b: "round_half_even q = (if even f then f else f + 1)"
      unfolding round_half_even_def Let_def using 3 r_def f_def by auto
    show ?thesis unfolding a b using assms by auto
  next
    case 4
    have fl: "\<lfloor>of_int n - q\<rfloor> = n - f - 1"
      unfolding q using 4 r by linarith
    have "round_half_even (of_int n - q) = n - f - 1"
      unfolding round_half_even_def Let_def fl using 4 q by auto
    moreover have "round_half_even q = f + 1"
      unfolding round_half_even_def Let_def using 4 r_def f_def by auto
    ultimately show ?thesis by simp
  qed
qed

lemma py_round1_complement: "py_round1 (100 - x) = 100 - py_round1 x"
proof -
  have "(100 - x) * 10 = of_int 1000 - x * 10" by simp
  then have "round_half_even ((100 - x) * 10) = 1000 - round_half_even (x * 10)"
    using round_half_even_minus [of 1000 "x * 10"] by simp
  then show ?thesis by (simp add: py_round1_def diff_divide_distrib)
qed

lemma py_round1_mono: "x \<le> y \<Longrightarrow> py_round1 x \<le> py_round1 y"
  unfolding py_round1_def using round_half_even_mono [of "x * 10" "y * 10"]
  by (simp add: divide_right_mono)

lemma py_round1_tenth: "py_round1 (of_int k / 10) = of_int k / 10"
  by (simp add: py_round1_def round_half_even_of_int)

lemma py_round1_range:
  assumes "15 \<le> x" "x \<le> 85"
  shows "15 \<le> py_round1 x \<and> py_round1 x \<le> 85"
proof -
  have "py_round1 15 = 15" "py_round1 85 = 85"
    using py_round1_tenth [of 150] py_round1_tenth [of 850] by simp_all
  then show ?thesis
    using py_round1_mono [OF assms(1)] py_round1_mono [OF assms(2)] by simp
qed

section \<open>Properties of the win-probability model\<close>

lemma get_match_details_present:
  assumes "match_id \<in> Match_ID ` set (schedule_df d)"
  shows "\<exists>m. get_match_details d match_id = Inr m \<and> m \<in> set (schedule_df d)
           \<and> Match_ID m = match_id"
proof -
  from assms have "filter (\<lambda>row. Match_ID row = match_id) (schedule_df d) \<noteq> []"
    by (auto simp: filter_empty_conv)
  then obtain m ms where f: "filter (\<lambda>row. Match_ID row = match_id) (schedule_df d) = m # ms"
    by (cases "filter (\<lambda>row. Match_ID row = match_id) (schedule_df d)") auto
  then have "m \<in> set (filter (\<lambda>row. Match_ID row = match_id) (schedule_df d))" by simp
  then have "m \<in> set (schedule_df d)" "Match_ID m = match_id" by auto
  with f show ?thesis by (simp add: get_match_details_def)
qed

lemma get_match_details_absent:
  assumes "match_id \<notin> Match_ID ` set (schedule_df d)"
  shows "get_match_details d match_id = Inl (ValueError match_id)"
proof -
  from assms have "filter (\<lambda>row. Match_ID row = match_id) (schedule_df d) = []"
    by (auto simp: filter_empty_conv)
  then show ?thesis by (simp add: get_match_details_def)
qed

lemma get_team_rating_bowling:
  assumes "ratings_ok d"
  shows "bowling (get_team_rating d t) + 20 \<noteq> 0"
proof (cases "team_ratings d t")
  case None
  then show ?thesis by (simp add: get_team_rating_def)
next
  case (Some r)
  then have "(t, r) \<in> set (rev (map (\<lambda>row. (Team row,
        \<lparr>batting = Bat_Rating row, bowling = Bowl_Rating row, overall = Overall_Rating row\<rparr>))
        (team_ratings_df d)))"
    unfolding team_ratings_def by (rule map_of_SomeD)
  then obtain row where "row \<in> set (team_ratings_df d)" "bowling r = Bowl_Rating row"
    by auto
  with assms have "bowling r \<noteq> - 20"
    by (auto simp: ratings_ok_def list_all_iff)
  with Some show ?thesis by (simp add: get_team_rating_def)
qed

lemma bat_vs_bowl_ok:
  assumes "bowling r1 + 20 \<noteq> 0" "bowling r2 + 20 \<noteq> 0"
  shows "\<exists>edges. bat_vs_bowl r1 r2 vi = Inr edges"
  using assms by (simp add: bat_vs_bowl_def py_truediv_def Let_def)

lemma apply_toss_total:
  "fst (apply_toss vi w dec (b, 100 - b)) + snd (apply_toss vi w dec (b, 100 - b)) = 115
   \<or> fst (apply_toss vi w dec (b, 100 - b)) + snd (apply_toss vi w dec (b, 100 - b)) = 215 / 2"
  by (simp add: apply_toss_def Let_def)

lemma normalize_probs_ok:
  assumes "fst p + snd p \<noteq> 0"
  shows "\<exists>q. normalize_probs p = Inr q"
  using assms by (simp add: normalize_probs_def py_truediv_def Let_def)

lemma normalize_after_toss:
  "\<exists>q. normalize_probs (apply_toss vi w dec (b, 100 - b)) = Inr q"
proof (rule normalize_probs_ok)
  show "fst (apply_toss vi w dec (b, 100 - b)) + snd (apply_toss vi w dec (b, 100 - b)) \<noteq> 0"
    using apply_toss_total [of vi w dec b] by auto
qed

lemma clamp_probs_sum: "fst (clamp_probs b) + snd (clamp_probs b) = 100"
  by (simp add: clamp_probs_def Let_def py_round1_complement)

lemma clamp_probs_range:
  "15 \<le> fst (clamp_probs b) \<and> fst (clamp_probs b) \<le> 85
   \<and> 15 \<le> snd (clamp_probs b) \<and> snd (clamp_probs b) \<le> 85"
proof -
  define c where "c = max 15 (min 85 b)"
  have c: "15 \<le> c" "c \<le> 85" by (auto simp: c_def)
  then have c': "15 \<le> 100 - c" "100 - c \<le> 85" by auto
  show ?thesis
    using py_round1_range [OF c] py_round1_range [OF c']
    by (simp add: clamp_probs_def Let_def c_def)
qed

lemma calculate_win_probability_returns:
  assumes "match_id \<in> Match_ID ` set (schedule_df d)" and "ratings_ok d"
  shows "\<exists>r b. calculate_win_probability d match_id toss_winner toss_decision draw_total = Inr r
           \<and> win_prob r = clamp_probs b"
proof -
  from get_match_details_present [OF assms(1)]
  obtain m where m: "get_match_details d match_id = Inr m" by blast
  define r1 where "r1 = get_team_rating d (Team1 m)"
  define r2 where "r2 = get_team_rating d (Team2 m)"
  define vi where "vi = get_venue_impact d (Venue m)"
  define b where "b = base_prob_h2h r1 r2 (get_head_to_head_record d (Team1 m) (Team2 m) draw_total)"
  have "bowling r1 + 20 \<noteq> 0" "bowling r2 + 20 \<noteq> 0"
    unfolding r1_def r2_def using get_team_rating_bowling [OF assms(2)] by blast+
  then obtain edges where e: "bat_vs_bowl r1 r2 vi = Inr edges"
    using bat_vs_bowl_ok by blast
  obtain q where q: "normalize_probs (apply_toss vi toss_winner toss_decision (b, 100 - b)) = Inr q"
    using normalize_after_toss by blast
  have "calculate_win_probability d match_id toss_winner toss_decision draw_total =
          Inr \<lparr>a_team1 = Team1 m, a_team2 = Team2 m, a_venue = Venue m,
               win_prob = clamp_probs (fst q)\<rparr>"
    using m e q
    by (simp add: calculate_win_probability_def Let_def r1_def r2_def vi_def b_def)
  then show ?thesis by auto
qed

lemma calculate_win_probability_not_ValueError:
  assumes "match_id \<in> Match_ID ` set (schedule_df d)"
  shows "calculate_win_probability d match_id tw td t \<noteq> Inl (ValueError match_id)"
proof -
  from get_match_details_present [OF assms]
  obtain m where m: "get_match_details d match_id = Inr m" by blast
  show ?thesis
    using m normalize_after_toss
    by (auto simp: calculate_win_probability_def Let_def bat_vs_bowl_def py_truediv_def
        normalize_probs_def split: sum.splits if_splits)
qed

lemma simulate_single_match_absent:
  assumes "Match_ID f \<notin> Match_ID ` set (schedule_df d)"
  shows "simulate_single_match d f dr = Inl (ValueError (Match_ID f))"
  using get_match_details_absent [OF assms]
  by (simp add: simulate_single_match_def calculate_win_probability_def Let_def)

text \<open>
  C2. \<^verbatim>\<open>calculate_win_probability\<close> raises the not-found error (the \<^verbatim>\<open>ValueError\<close> of
  \<^verbatim>\<open>get_match_details\<close>) exactly when the match id is absent from the schedule: for an
  absent id it raises it, and \<^verbatim>\<open>simulate_single_match\<close> passes it on unchanged (no retry,
  no fallback); for a present id it never raises it, and with well-formed reference data
  it raises nothing.
\<close>

theorem not_found_exactly_when_absent:
  "(match_id \<notin> Match_ID ` set (schedule_df d) \<longrightarrow>
      calculate_win_probability d match_id tw td t = Inl (ValueError match_id)
      \<and> simulate_single_match d \<lparr>Match_ID = match_id, Team1 = a, Team2 = b, Venue = v\<rparr> dr
          = Inl (ValueError match_id))
   \<and> (match_id \<in> Match_ID ` set (schedule_df d) \<longrightarrow>
      calculate_win_probability d match_id tw td t \<noteq> Inl (ValueError match_id)
      \<and> (ratings_ok d \<longrightarrow> (\<exists>r. calculate_win_probability d match_id tw td t = Inr r)))"
proof (intro conjI impI)
  assume a: "match_id \<notin> Match_ID ` set (schedule_df d)"
  show "calculate_win_probability d match_id tw td t = Inl (ValueError match_id)"
    using get_match_details_absent [OF a] by (simp add: calculate_win_probability_def)
  show "simulate_single_match d \<lparr>Match_ID = match_id, Team1 = a, Team2 = b, Venue = v\<rparr> dr
          = Inl (ValueError match_id)"
    using simulate_single_match_absent [of "\<lparr>Match_ID = match_id, Team1 = a, Team2 = b, Venue = v\<rparr>" d dr] a
    by simp
next
  assume p: "match_id \<in> Match_ID ` set (schedule_df d)"
  show "calculate_win_probability d match_id tw td t \<noteq> Inl (ValueError match_id)"
    by (rule calculate_win_probability_not_ValueError [OF p])
  assume "ratings_ok d"
  with p show "\<exists>r. calculate_win_probability d match_id tw td t = Inr r"
    using calculate_win_probability_returns by blast
qed

theorem not_found_exactly_when_absent_witness:
  "calculate_win_probability demo_tables 7 ''Team A'' ''Bat'' 9 = Inl (ValueError 7)
   \<and> simulate_single_match demo_tables
        \<lparr>Match_ID = 7, Team1 = ''Alpha'', Team2 = ''Beta'', Venue = ''Oval''\<rparr>
        \<lparr>toss_pick = True, decision_pick = True, decision_u = 1 / 2, h2h_total = 9,
          outcome_u = 1 / 2, standings_ties = [], playoff_ties = []\<rparr> = Inl (ValueError 7)
   \<and> calculate_win_probability demo_tables 2 ''Team A'' ''Bat'' 9 \<noteq> Inl (ValueError 2)
   \<and> (\<exists>r. calculate_win_probability demo_tables 2 ''Team A'' ''Bat'' 9 = Inr r)"
  using not_found_exactly_when_absent [of 7 demo_tables "''Team A''" "''Bat''" 9
          "''Alpha''" "''Beta''" "''Oval''"
          "\<lparr>toss_pick = True, decision_pick = True, decision_u = 1 / 2, h2h_total = 9,
            outcome_u = 1 / 2, standings_ties = [], playoff_ties = []\<rparr>"]
        not_found_exactly_when_absent [of 2 demo_tables "''Team A''" "''Bat''" 9]
  by (simp add: demo_tables_def ratings_ok_def)


lemma map_pair_zip: "map (\<lambda>x. (f x, g x)) xs = zip (map f xs) (map g xs)"
  by (induction xs) simp_all

lemma team_ratings_overall:
  "map_option overall (team_ratings d t)
     = map_of (rev (zip (map Team (team_ratings_df d)) (map Overall_Rating (team_ratings_df d)))) t"
proof -
  define g where "g = (\<lambda>row :: rating_row. (Team row,
        \<lparr>batting = Bat_Rating row, bowling = Bowl_Rating row, overall = Overall_Rating row\<rparr>))"
  have "map_option overall (map_of (rev (map g (team_ratings_df d))) t)
          = map_of (map (\<lambda>(k, v). (k, overall v)) (rev (map g (team_ratings_df d)))) t"
    by (simp add: map_of_map)
  also have "map (\<lambda>(k, v). (k, overall v)) (rev (map g (team_ratings_df d)))
          = rev (map (\<lambda>row. (Team row, Overall_Rating row)) (team_ratings_df d))"
    by (simp add: rev_map g_def)
  also have "map (\<lambda>row. (Team row, Overall_Rating row)) (team_ratings_df d)
          = zip (map Team (team_ratings_df d)) (map Overall_Rating (team_ratings_df d))"
    by (rule map_pair_zip)
  finally show ?thesis by (simp add: team_ratings_def g_def)
qed

lemma get_team_rating_overall:
  "overall (get_team_rating d t)
     = (case map_option overall (team_ratings d t) of Some x \<Rightarrow> x | None \<Rightarrow> 50)"
  by (simp add: get_team_rating_def split: option.splits)

lemma same_overall:
  assumes "map Team (team_ratings_df d') = map Team (team_ratings_df d)"
    and "map Overall_Rating (team_ratings_df d') = map Overall_Rating (team_ratings_df d)"
  shows "overall (get_team_rating d' t) = overall (get_team_rating d t)"
  unfolding get_team_rating_overall team_ratings_overall assms ..

lemma same_pre_toss:
  assumes "map Team (team_ratings_df d') = map Team (team_ratings_df d)"
    and "map Overall_Rating (team_ratings_df d') = map Overall_Rating (team_ratings_df d)"
  shows "pre_toss_prob d' t1 t2 n = pre_toss_prob d t1 t2 n"
  by (simp add: pre_toss_prob_def base_prob_h2h_def get_head_to_head_record_def Let_def
      same_overall [OF assms])

lemma calculate_win_probability_Inr:
  assumes "calculate_win_probability d match_id tw td n = Inr r"
  shows "\<exists>m q. get_match_details d match_id = Inr m
           \<and> normalize_probs (apply_toss (get_venue_impact d (Venue m)) tw td
                (pre_toss_prob d (Team1 m) (Team2 m) n,
                 100 - pre_toss_prob d (Team1 m) (Team2 m) n)) = Inr q
           \<and> win_prob r = clamp_probs (fst q)"
  using assms
  by (auto simp: calculate_win_probability_def Let_def pre_toss_prob_def split: sum.splits)

text \<open>
  C5. Two executions on tables that differ only in the batting and bowling sub-ratings
  (same schedule, same venue profiles, same teams with the same overall ratings), with the
  same toss inputs and the same head-to-head draw, return the same \<^verbatim>\<open>win_prob\<close> pair:
  the batting-versus-bowling values are computed and never read.
\<close>

theorem sub_ratings_do_not_matter:
  assumes "schedule_df d' = schedule_df d"
    and "venue_stats_df d' = venue_stats_df d"
    and "map Team (team_ratings_df d') = map Team (team_ratings_df d)"
    and "map Overall_Rating (team_ratings_df d') = map Overall_Rating (team_ratings_df d)"
    and "calculate_win_probability d match_id tw td n = Inr r"
    and "calculate_win_probability d' match_id tw td n = Inr r'"
  shows "win_prob r' = win_prob r"
proof -
  have m: "get_match_details d' match_id = get_match_details d match_id"
    by (simp add: get_match_details_def assms(1))
  have v: "get_venue_impact d' x = get_venue_impact d x" for x
    by (simp add: get_venue_impact_def venue_stats_def assms(2))
  from calculate_win_probability_Inr [OF assms(5)] calculate_win_probability_Inr [OF assms(6)]
  show ?thesis
    unfolding m v same_pre_toss [OF assms(3,4)] by auto
qed

theorem sub_ratings_do_not_matter_witness:
  "\<exists>r r'. calculate_win_probability demo_tables 1 ''Team B'' ''Bowl'' 11 = Inr r
     \<and> calculate_win_probability demo_tables_resplit 1 ''Team B'' ''Bowl'' 11 = Inr r'
     \<and> map Bat_Rating (team_ratings_df demo_tables_resplit)
         \<noteq> map Bat_Rating (team_ratings_df demo_tables)
     \<and> win_prob r' = win_prob r"
proof -
  have h: "1 \<in> Match_ID ` set (schedule_df demo_tables)" "ratings_ok demo_tables"
    by (simp_all add: demo_tables_def ratings_ok_def)
  have h': "1 \<in> Match_ID ` set (schedule_df demo_tables_resplit)"
    "ratings_ok demo_tables_resplit"
    by (simp_all add: demo_tables_resplit_def ratings_ok_def)
  obtain r where r: "calculate_win_probability demo_tables 1 ''Team B'' ''Bowl'' 11 = Inr r"
    using calculate_win_probability_returns [OF h] by blast
  obtain r' where r': "calculate_win_probability demo_tables_resplit 1 ''Team B'' ''Bowl'' 11 = Inr r'"
    using calculate_win_probability_returns [OF h'] by blast
  have "win_prob r' = win_prob r"
    by (rule sub_ratings_do_not_matter [OF _ _ _ _ r r'])
       (simp_all add: demo_tables_def demo_tables_resplit_def)
  moreover have "map Bat_Rating (team_ratings_df demo_tables_resplit)
         \<noteq> map Bat_Rating (team_ratings_df demo_tables)"
    by (simp add: demo_tables_def demo_tables_resplit_def)
  ultimately show ?thesis using r r' by blast
qed


text \<open>
  C6 as stated fails: with equal overall ratings and the neutral venue, a head-to-head
  draw of 9 matches gives team 1 \<open>int(4.5) = 4\<close> wins, and the probability before the toss
  adjustment is \<open>445/9\<close>, not 50.
\<close>

theorem equal_ratings_odd_draw_counterexample:
  "overall (get_team_rating even_tables ''Alpha'') = overall (get_team_rating even_tables ''Beta'')
   \<and> get_venue_impact even_tables ''Neutral Ground''
       = \<lparr>bat_first_win_pct = 50, bowl_first_win_pct = 50, avg_score = 150, run_rate' = 17 / 2\<rparr>
   \<and> (8::int) \<le> 9 \<and> (9::int) \<le> 15
   \<and> pre_toss_prob even_tables ''Alpha'' ''Beta'' 9 = 445 / 9
   \<and> pre_toss_prob even_tables ''Alpha'' ''Beta'' 9 \<noteq> 50"
  by code_simp


lemma py_int_half: "0 \<le> t \<Longrightarrow> py_int (of_int t * (1 / 2)) = t div 2"
proof -
  assume "0 \<le> t"
  have "\<lfloor>(of_int t :: rat) / of_int 2\<rfloor> = t div 2"
    by (rule floor_divide_of_int_eq)
  then show ?thesis using \<open>0 \<le> t\<close> by (simp add: py_int_def)
qed

text \<open>
  C6, amended. For two teams of equal overall rating and a head-to-head draw \<open>t\<close> in
  [8, 15], team 1's probability before the toss adjustment and the clamp is exactly 50
  when \<open>t\<close> is even (so the split is 50/50), and \<open>50 - 5/t\<close> when \<open>t\<close> is odd.
\<close>

theorem equal_ratings_pre_toss:
  assumes "overall (get_team_rating d team1) = overall (get_team_rating d team2)"
    and "8 \<le> t" and "t \<le> 15"
  shows "pre_toss_prob d team1 team2 t = (if even t then 50 else 50 - 5 / of_int t)"
proof -
  have t: "0 < t" "0 \<le> t" using assms(2) by auto
  have w: "team1_win_pct (get_head_to_head_record d team1 team2 t)
             = of_int (t div 2) / of_int t * 100"
    using assms(1) t py_int_half [OF t(2)]
    by (simp add: get_head_to_head_record_def Let_def)
  have b: "pre_toss_prob d team1 team2 t = 45 + of_int (t div 2) / of_int t * 10"
    using assms(1) by (simp add: pre_toss_prob_def base_prob_h2h_def Let_def w)
  show ?thesis
  proof (cases "even t")
    case True
    then obtain k where k: "t = 2 * k" by (auto elim: evenE)
    with t have "(of_int (t div 2) :: rat) / of_int t = 1 / 2" by simp
    with b True show ?thesis by simp
  next
    case False
    then obtain k where k: "t = 2 * k + 1" by (auto elim: oddE)
    have "(of_int (t div 2) :: rat) = (of_int t - 1) / 2" unfolding k by simp
    then have "(of_int (t div 2) :: rat) / of_int t * 10 = 5 - 5 / of_int t"
      using t by (simp add: field_simps)
    with b False show ?thesis by simp
  qed
qed

theorem equal_ratings_pre_toss_witness:
  "pre_toss_prob even_tables ''Alpha'' ''Beta'' 8 = 50
   \<and> pre_toss_prob even_tables ''Alpha'' ''Beta'' 15 = 50 - 5 / 15"
  using equal_ratings_pre_toss [of even_tables "''Alpha''" "''Beta''" 8]
        equal_ratings_pre_toss [of even_tables "''Alpha''" "''Beta''" 15]
  by (simp add: get_team_rating_def team_ratings_def even_tables_def)

section \<open>Properties of the group stage\<close>

lemma simulate_single_match_played:
  assumes "simulate_single_match d f dr = Inr r"
  shows "played f r"
  using assms
  by (auto simp: simulate_single_match_def Let_def played_def split: sum.splits)

lemma simulate_single_match_returns:
  assumes "Match_ID f \<in> Match_ID ` set (schedule_df d)" and "ratings_ok d"
  shows "\<exists>r. simulate_single_match d f dr = Inr r"
proof -
  obtain res where
    "calculate_win_probability d (Match_ID f) (if toss_pick dr then ''Team A'' else ''Team B'')
       (simulate_optimal_toss_decision d (Venue f) dr) (h2h_total dr) = Inr res"
    using calculate_win_probability_returns [OF assms] by blast
  then show ?thesis by (simp add: simulate_single_match_def Let_def)
qed

lemma dict_update_keys:
  assumes "dict_update k f ts = Inr ts'"
  shows "map fst ts' = map fst ts"
proof -
  from assms have "ts' = map (\<lambda>(k', s). if k' = k then (k', f s) else (k', s)) ts"
    by (auto simp: dict_update_def split: if_splits)
  then show ?thesis by (auto simp: case_prod_beta)
qed

lemma dict_update_present:
  assumes "dict_update k f ts = Inr ts'"
  shows "k \<in> set (map fst ts)"
  using assms by (auto simp: dict_update_def split: if_splits)

lemma dict_update_returns:
  assumes "k \<in> set (map fst ts)"
  shows "\<exists>ts'. dict_update k f ts = Inr ts'"
  using assms by (simp add: dict_update_def)

lemma dict_update_missing:
  assumes "k \<notin> set (map fst ts)"
  shows "dict_update k f ts = Inl (KeyError k)"
  using assms by (simp add: dict_update_def)

lemma sum_list_update_key:
  assumes "distinct (map fst ts)" and "k \<in> set (map fst ts)"
    and "\<And>s. g (f s) = g s + c"
  shows "sum_list (map (\<lambda>(k', s). g s) (map (\<lambda>(k', s). if k' = k then (k', f s) else (k', s)) ts))
           = sum_list (map (\<lambda>(k', s). g s) ts) + (c :: int)"
  using assms(1,2)
proof (induction ts)
  case Nil
  then show ?case by simp
next
  case (Cons a ts)
  obtain k' s where a: "a = (k', s)" by (cases a)
  show ?case
  proof (cases "k' = k")
    case True
    with Cons.prems a have "k \<notin> set (map fst ts)" by auto
    then have "map (\<lambda>(k', s). if k' = k then (k', f s) else (k', s)) ts = ts"
      by (induction ts) auto
    with True a show ?thesis by (simp add: assms(3))
  next
    case False
    with Cons a show ?thesis by auto
  qed
qed

lemma dict_update_sum:
  assumes "distinct (map fst ts)" and "dict_update k f ts = Inr ts'"
    and "\<And>s. g (f s) = g s + c"
  shows "sum_list (map (\<lambda>(k', s). g s) ts') = sum_list (map (\<lambda>(k', s). g s) ts) + (c :: int)"
proof -
  from assms(2) have k: "k \<in> set (map fst ts)" by (rule dict_update_present)
  with assms(2) have "ts' = map (\<lambda>(k', s). if k' = k then (k', f s) else (k', s)) ts"
    by (simp add: dict_update_def)
  then show ?thesis
    using sum_list_update_key [of ts k g f c, OF assms(1) k assms(3)] by simp
qed

lemma step_updates:
  assumes d: "distinct (map fst ts)"
    and u1: "dict_update w (\<lambda>s. s\<lparr>wins := wins s + 1\<rparr>) ts = Inr ts1"
    and u2: "dict_update w (\<lambda>s. s\<lparr>points := points s + 2\<rparr>) ts1 = Inr ts2"
    and u3: "dict_update l (\<lambda>s. s\<lparr>losses := losses s + 1\<rparr>) ts2 = Inr ts3"
  shows "map fst ts3 = map fst ts"
    and "wins_total ts3 = wins_total ts + 1"
    and "losses_total ts3 = losses_total ts + 1"
    and "two_per_win ts \<Longrightarrow> two_per_win ts3"
proof -
  have k1: "map fst ts1 = map fst ts" and k2: "map fst ts2 = map fst ts1"
    and k3: "map fst ts3 = map fst ts2"
    using u1 u2 u3 by (auto dest: dict_update_keys)
  then show "map fst ts3 = map fst ts" by simp
  have d1: "distinct (map fst ts1)" and d2: "distinct (map fst ts2)"
    using d k1 k2 by simp_all
  have "wins_total ts1 = wins_total ts + 1"
    unfolding wins_total_def by (rule dict_update_sum [OF d u1]) simp
  moreover have "wins_total ts2 = wins_total ts1 + 0"
    unfolding wins_total_def by (rule dict_update_sum [OF d1 u2]) simp
  moreover have "wins_total ts3 = wins_total ts2 + 0"
    unfolding wins_total_def by (rule dict_update_sum [OF d2 u3]) simp
  ultimately show "wins_total ts3 = wins_total ts + 1" by simp
  have "losses_total ts1 = losses_total ts + 0"
    unfolding losses_total_def by (rule dict_update_sum [OF d u1]) simp
  moreover have "losses_total ts2 = losses_total ts1 + 0"
    unfolding losses_total_def by (rule dict_update_sum [OF d1 u2]) simp
  moreover have "losses_total ts3 = losses_total ts2 + 1"
    unfolding losses_total_def by (rule dict_update_sum [OF d2 u3]) simp
  ultimately show "losses_total ts3 = losses_total ts + 1" by simp
  assume inv: "two_per_win ts"
  have e1: "ts1 = map (\<lambda>(k', s). if k' = w then (k', s\<lparr>wins := wins s + 1\<rparr>) else (k', s)) ts"
    using u1 by (auto simp: dict_update_def split: if_splits)
  have e2: "ts2 = map (\<lambda>(k', s). if k' = w then (k', s\<lparr>points := points s + 2\<rparr>) else (k', s)) ts1"
    using u2 by (auto simp: dict_update_def split: if_splits)
  have e3: "ts3 = map (\<lambda>(k', s). if k' = l then (k', s\<lparr>losses := losses s + 1\<rparr>) else (k', s)) ts2"
    using u3 by (auto simp: dict_update_def split: if_splits)
  show "two_per_win ts3"
    using inv unfolding e3 e2 e1 two_per_win_def list_all_iff by (auto split: if_splits)
qed

lemma group_stage_loop_correct:
  assumes "group_stage_loop d rs sched (ts, mr, k) = Inr (ts', mr', k')"
    and "distinct (map fst ts)"
  shows "map fst ts' = map fst ts \<and> k' = k + length sched
         \<and> (\<exists>new. mr' = mr @ new \<and> list_all2 played sched new)
         \<and> wins_total ts' = wins_total ts + int (length sched)
         \<and> losses_total ts' = losses_total ts + int (length sched)
         \<and> (two_per_win ts \<longrightarrow> two_per_win ts')"
  using assms
proof (induction sched arbitrary: ts mr k)
  case Nil
  then show ?case by simp
next
  case (Cons f rest)
  from Cons.prems(1) obtain r ts1 ts2 ts3 where
    r: "simulate_single_match d f (rs k) = Inr r"
    and u1: "dict_update (winner r) (\<lambda>s. s\<lparr>wins := wins s + 1\<rparr>) ts = Inr ts1"
    and u2: "dict_update (winner r) (\<lambda>s. s\<lparr>points := points s + 2\<rparr>) ts1 = Inr ts2"
    and u3: "dict_update (loser r) (\<lambda>s. s\<lparr>losses := losses s + 1\<rparr>) ts2 = Inr ts3"
    and rec: "group_stage_loop d rs rest (ts3, mr @ [r], Suc k) = Inr (ts', mr', k')"
    by (auto split: sum.splits)
  note st = step_updates [OF Cons.prems(2) u1 u2 u3]
  have d3: "distinct (map fst ts3)" using st(1) Cons.prems(2) by simp
  from Cons.IH [OF rec d3] obtain new where
    ih: "map fst ts' = map fst ts3" "k' = Suc k + length rest"
      "mr' = (mr @ [r]) @ new" "list_all2 played rest new"
      "wins_total ts' = wins_total ts3 + int (length rest)"
      "losses_total ts' = losses_total ts3 + int (length rest)"
      "two_per_win ts3 \<longrightarrow> two_per_win ts'"
    by blast
  have "mr' = mr @ (r # new)" "list_all2 played (f # rest) (r # new)"
    using ih(3,4) simulate_single_match_played [OF r] by simp_all
  then have "\<exists>new. mr' = mr @ new \<and> list_all2 played (f # rest) new" by blast
  then show ?case using ih st by simp
qed

lemma group_stage_loop_returns:
  assumes "ratings_ok d"
    and "\<forall>f \<in> set sched. Match_ID f \<in> Match_ID ` set (schedule_df d)
           \<and> Team1 f \<in> set (map fst ts) \<and> Team2 f \<in> set (map fst ts)"
  shows "\<exists>res. group_stage_loop d rs sched (ts, mr, k) = Inr res"
  using assms(2)
proof (induction sched arbitrary: ts mr k)
  case Nil
  then show ?case by simp
next
  case (Cons f rest)
  from Cons.prems have f: "Match_ID f \<in> Match_ID ` set (schedule_df d)"
    "Team1 f \<in> set (map fst ts)" "Team2 f \<in> set (map fst ts)" by simp_all
  obtain r where r: "simulate_single_match d f (rs k) = Inr r"
    using simulate_single_match_returns [OF f(1) assms(1)] by blast
  from simulate_single_match_played [OF r]
  have "winner r \<in> {Team1 f, Team2 f}" "loser r \<in> {Team1 f, Team2 f}"
    by (auto simp: played_def)
  with f(2,3) have wl: "winner r \<in> set (map fst ts)" "loser r \<in> set (map fst ts)"
    by (metis insertE singletonD)+
  obtain ts1 where u1: "dict_update (winner r) (\<lambda>s. s\<lparr>wins := wins s + 1\<rparr>) ts = Inr ts1"
    using dict_update_returns [OF wl(1)] by blast
  have k1: "map fst ts1 = map fst ts" by (rule dict_update_keys [OF u1])
  obtain ts2 where u2: "dict_update (winner r) (\<lambda>s. s\<lparr>points := points s + 2\<rparr>) ts1 = Inr ts2"
    using dict_update_returns [of "winner r" ts1] wl(1) k1 by auto
  have k2: "map fst ts2 = map fst ts" using dict_update_keys [OF u2] k1 by simp
  obtain ts3 where u3: "dict_update (loser r) (\<lambda>s. s\<lparr>losses := losses s + 1\<rparr>) ts2 = Inr ts3"
    using dict_update_returns [of "loser r" ts2] wl(2) k2 by auto
  have k3: "map fst ts3 = map fst ts" using dict_update_keys [OF u3] k2 by simp
  have "\<exists>res. group_stage_loop d rs rest (ts3, mr @ [r], Suc k) = Inr res"
    by (rule Cons.IH) (use Cons.prems k3 in auto)
  then show ?case using r u1 u2 u3 by simp
qed

lemma dict_keys_set: "set (dict_keys ks) = set ks"
  by (simp add: dict_keys_def)

lemma dict_keys_distinct: "distinct (dict_keys ks)"
  by (simp add: dict_keys_def)

lemma sum_list_insort_key:
  "sum_list (map g (insort_key f x xs)) = (g x :: int) + sum_list (map g xs)"
  by (induction xs) auto

lemma sum_list_sort_key: "sum_list (map g (sort_key f xs)) = (sum_list (map g xs) :: int)"
  by (induction xs) (auto simp: sum_list_insort_key)

lemma permute_mset: "mset (permute cs rows) = mset rows"
proof (induction cs arbitrary: rows)
  case Nil
  show ?case by simp
next
  case (Cons c cs)
  show ?case
  proof (cases "rows = []")
    case True
    then show ?thesis by simp
  next
    case False
    define i where "i = c mod length rows"
    have i: "i < length rows" using False by (simp add: i_def)
    have "mset rows = mset (take i rows @ rows ! i # drop (Suc i) rows)"
      using id_take_nth_drop [OF i] by simp
    then show ?thesis
      using False Cons.IH [of "take i rows @ drop (Suc i) rows"]
      by (simp add: Let_def i_def [symmetric])
  qed
qed

lemma permute_any:
  assumes "mset ys = mset rows"
  shows "\<exists>cs. permute cs rows = ys"
  using assms
proof (induction ys arbitrary: rows)
  case Nil
  then have "permute [] rows = []" by simp
  then show ?case by blast
next
  case (Cons y ys)
  then have "y \<in> set rows" by (metis list.set_intros(1) set_mset_mset)
  then obtain i where i: "i < length rows" "rows ! i = y" by (auto simp: in_set_conv_nth)
  have "mset rows = mset (take i rows @ rows ! i # drop (Suc i) rows)"
    using id_take_nth_drop [OF i(1)] by simp
  with Cons.prems i(2) have "mset ys = mset (take i rows @ drop (Suc i) rows)" by simp
  from Cons.IH [OF this] obtain cs where
    cs: "permute cs (take i rows @ drop (Suc i) rows) = ys" by blast
  have "rows \<noteq> []" using i(1) by auto
  with i cs have "permute (i # cs) rows = y # ys" by (simp add: Let_def)
  then show ?case by blast
qed

lemma sort_values_desc_mset: "mset (sort_values_desc ties col rows) = mset rows"
  by (simp add: sort_values_desc_def permute_mset)

lemma sort_values_desc_set: "set (sort_values_desc ties col rows) = set rows"
  using sort_values_desc_mset [of ties col rows] by (metis set_mset_mset)

lemma sort_values_desc_length: "length (sort_values_desc ties col rows) = length rows"
  using sort_values_desc_mset [of ties col rows] by (metis size_mset)

lemma sort_values_desc_sum:
  "sum_list (map g (sort_values_desc ties col rows)) = (sum_list (map g rows) :: int)"
proof -
  have "mset (map g (sort_values_desc ties col rows)) = mset (map g rows)"
    by (simp add: sort_values_desc_mset)
  then show ?thesis by (metis sum_mset_sum_list)
qed

lemma sort_values_desc_distinct:
  "distinct (map g (sort_values_desc ties col rows)) = distinct (map g rows)"
proof -
  have "mset (map g (sort_values_desc ties col rows)) = mset (map g rows)"
    by (simp add: sort_values_desc_mset)
  then show ?thesis by (rule mset_eq_imp_distinct_iff)
qed

lemma sort_values_desc_sorted:
  "sorted_wrt (\<lambda>a b. col b \<le> col a) (sort_values_desc ties col rows)"
proof -
  have "sorted (map (\<lambda>row. - col row) (sort_key (\<lambda>row. - col row) (permute ties rows)))"
    by (rule sorted_sort_key)
  then show ?thesis
    by (simp add: sort_values_desc_def sorted_wrt_map)
qed

lemma sort_values_desc_any:
  assumes "mset ys = mset rows" and "sorted_wrt (\<lambda>a b. col b \<le> col a) ys"
  shows "\<exists>ties. sort_values_desc ties col rows = ys"
proof -
  from permute_any [OF assms(1)] obtain cs where cs: "permute cs rows = ys" by blast
  have "sorted (map (\<lambda>row. - col row) ys)"
    using assms(2) by (simp add: sorted_wrt_map)
  then have "sort_key (\<lambda>row. - col row) ys = ys" by (rule sort_key_id_if_sorted)
  with cs have "sort_values_desc cs col rows = ys" by (simp add: sort_values_desc_def)
  then show ?thesis by blast
qed

lemma sort_values_desc_stable:
  "sort_values_desc [] col rows = sort_key (\<lambda>row. - col row) rows"
  by (simp add: sort_values_desc_def)

lemma standings_of_facts:
  "map team (standings_of ts) = map fst ts"
  "sum_list (map wins (standings_of ts)) = wins_total ts"
  "sum_list (map losses (standings_of ts)) = losses_total ts"
  "two_per_win ts \<Longrightarrow> \<forall>row \<in> set (standings_of ts). points row = 2 * wins row"
  by (induction ts)
     (auto simp: standings_of_def wins_total_def losses_total_def two_per_win_def)

lemma simulate_group_stage_Inr:
  assumes "simulate_group_stage d rs k = Inr (g, k')"
  shows "\<exists>ts. group_stage_loop d rs (schedule_df d)
             (map (\<lambda>t. (t, \<lparr>wins = 0, losses = 0, points = 0\<rparr>)) (dict_keys (teams d)), [], k)
           = Inr (ts, g_match_results g, k')
         \<and> ts \<noteq> []
         \<and> g_standings g = sort_values_desc (standings_ties (rs k')) points (standings_of ts)"
  using assms
  by (auto simp: simulate_group_stage_def standings_of_def Let_def split: sum.splits if_splits)

lemma initial_stats:
  "map fst (map (\<lambda>t. (t, \<lparr>wins = 0, losses = 0, points = 0\<rparr>)) ks) = ks"
  "wins_total (map (\<lambda>t. (t, \<lparr>wins = 0, losses = 0, points = 0\<rparr>)) ks) = 0"
  "losses_total (map (\<lambda>t. (t, \<lparr>wins = 0, losses = 0, points = 0\<rparr>)) ks) = 0"
  "two_per_win (map (\<lambda>t. (t, \<lparr>wins = 0, losses = 0, points = 0\<rparr>)) ks)"
  by (induction ks) (simp_all add: wins_total_def losses_total_def two_per_win_def)

lemma simulate_group_stage_correct:
  assumes "simulate_group_stage d rs k = Inr (g, k')"
  shows "k' = k + length (schedule_df d)
      \<and> list_all2 played (schedule_df d) (g_match_results g)
      \<and> (\<forall>row \<in> set (g_standings g). points row = 2 * wins row)
      \<and> sum_list (map wins (g_standings g)) = int (length (schedule_df d))
      \<and> sum_list (map losses (g_standings g)) = int (length (schedule_df d))
      \<and> set (map team (g_standings g)) = set (teams d)
      \<and> distinct (map team (g_standings g))
      \<and> g_standings g \<noteq> []"
proof -
  let ?init = "map (\<lambda>t. (t, \<lparr>wins = 0, losses = 0, points = 0\<rparr>)) (dict_keys (teams d))"
  from simulate_group_stage_Inr [OF assms] obtain ts where
    loop: "group_stage_loop d rs (schedule_df d) (?init, [], k) = Inr (ts, g_match_results g, k')"
    and ne: "ts \<noteq> []"
    and st: "g_standings g = sort_values_desc (standings_ties (rs k')) points (standings_of ts)"
    by blast
  have di: "distinct (map fst ?init)"
    unfolding initial_stats by (rule dict_keys_distinct)
  from group_stage_loop_correct [OF loop di]
  have keys: "map fst ts = dict_keys (teams d)"
    and k': "k' = k + length (schedule_df d)"
    and pl: "list_all2 played (schedule_df d) (g_match_results g)"
    and w: "wins_total ts = int (length (schedule_df d))"
    and l: "losses_total ts = int (length (schedule_df d))"
    and inv: "two_per_win ts"
    unfolding initial_stats(1-3) using initial_stats(4) by auto
  have "set (map team (g_standings g)) = set (map team (standings_of ts))"
    unfolding st by (simp add: sort_values_desc_set)
  then have s: "set (map team (g_standings g)) = set (teams d)"
    by (simp add: standings_of_facts keys dict_keys_set)
  have "distinct (map team (standings_of ts))"
    by (simp add: standings_of_facts keys dict_keys_distinct)
  then have dt: "distinct (map team (g_standings g))"
    unfolding st by (simp add: sort_values_desc_distinct)
  have n: "g_standings g \<noteq> []"
    using ne sort_values_desc_length [of "standings_ties (rs k')" points "standings_of ts"]
    unfolding st by (auto simp: standings_of_def)
  show ?thesis
    using k' pl w l s dt n standings_of_facts(4) [OF inv]
    by (simp add: st sort_values_desc_set sort_values_desc_sum standings_of_facts)
qed

lemma simulate_group_stage_returns:
  assumes "ratings_ok d" and "teams d \<noteq> []"
    and "\<forall>f \<in> set (schedule_df d). Team1 f \<in> set (teams d) \<and> Team2 f \<in> set (teams d)"
  shows "\<exists>g k'. simulate_group_stage d rs k = Inr (g, k')"
proof -
  let ?init = "map (\<lambda>t. (t, \<lparr>wins = 0, losses = 0, points = 0\<rparr>)) (dict_keys (teams d))"
  have "\<forall>f \<in> set (schedule_df d). Match_ID f \<in> Match_ID ` set (schedule_df d)
           \<and> Team1 f \<in> set (map fst ?init) \<and> Team2 f \<in> set (map fst ?init)"
    using assms(3) by (simp add: initial_stats dict_keys_set)
  from group_stage_loop_returns [OF assms(1) this]
  obtain ts mr k' where
    loop: "group_stage_loop d rs (schedule_df d) (?init, [], k) = Inr (ts, mr, k')"
    by (metis prod_cases3)
  have di: "distinct (map fst ?init)"
    unfolding initial_stats by (rule dict_keys_distinct)
  from group_stage_loop_correct [OF loop di]
  have "map fst ts = dict_keys (teams d)" unfolding initial_stats by simp
  with assms(2) have "ts \<noteq> []"
    using dict_keys_set [of "teams d"] by (cases ts) auto
  with loop show ?thesis
    by (simp add: simulate_group_stage_def Let_def)
qed

lemma group_stage_loop_needs_keys:
  assumes "group_stage_loop d rs sched (ts, mr, k) = Inr res"
  shows "\<forall>f \<in> set sched. Team1 f \<in> set (map fst ts) \<and> Team2 f \<in> set (map fst ts)"
  using assms
proof (induction sched arbitrary: ts mr k)
  case Nil
  then show ?case by simp
next
  case (Cons f rest)
  from Cons.prems obtain r ts1 ts2 ts3 where
    r: "simulate_single_match d f (rs k) = Inr r"
    and u1: "dict_update (winner r) (\<lambda>s. s\<lparr>wins := wins s + 1\<rparr>) ts = Inr ts1"
    and u2: "dict_update (winner r) (\<lambda>s. s\<lparr>points := points s + 2\<rparr>) ts1 = Inr ts2"
    and u3: "dict_update (loser r) (\<lambda>s. s\<lparr>losses := losses s + 1\<rparr>) ts2 = Inr ts3"
    and rec: "group_stage_loop d rs rest (ts3, mr @ [r], Suc k) = Inr res"
    by (auto split: sum.splits)
  have k3: "map fst ts3 = map fst ts"
    using dict_update_keys [OF u1] dict_update_keys [OF u2] dict_update_keys [OF u3] by simp
  have w: "winner r \<in> set (map fst ts)" by (rule dict_update_present [OF u1])
  have "loser r \<in> set (map fst ts2)" by (rule dict_update_present [OF u3])
  then have l: "loser r \<in> set (map fst ts)"
    using dict_update_keys [OF u1] dict_update_keys [OF u2] by simp
  from simulate_single_match_played [OF r]
  have "Team1 f \<in> {winner r, loser r}" "Team2 f \<in> {winner r, loser r}"
    by (auto simp: played_def)
  with w l have "Team1 f \<in> set (map fst ts)" "Team2 f \<in> set (map fst ts)"
    by (metis insertE singletonD)+
  moreover from Cons.IH [OF rec]
  have "\<forall>f \<in> set rest. Team1 f \<in> set (map fst ts) \<and> Team2 f \<in> set (map fst ts)"
    unfolding k3 .
  ultimately show ?case by simp
qed

text \<open>
  C9. With well-formed ratings, a non-empty ratings table and every scheduled team rated,
  one simulated group stage returns; it has simulated every fixture once, in schedule
  order (the match counter has advanced by the number of fixtures, and the list of results
  matches the schedule position by position); every result has one of the fixture's teams
  as winner and the other as loser; every standings row has \<open>points = 2 * wins\<close>; and the
  wins and the losses of the standings each sum to the number of fixtures.
\<close>

theorem group_stage_one_result_per_fixture:
  assumes "ratings_ok d" and "teams d \<noteq> []"
    and "\<forall>f \<in> set (schedule_df d). Team1 f \<in> set (teams d) \<and> Team2 f \<in> set (teams d)"
  shows "\<exists>g. simulate_group_stage d rs k = Inr (g, k + length (schedule_df d))
      \<and> list_all2 played (schedule_df d) (g_match_results g)
      \<and> (\<forall>row \<in> set (g_standings g). points row = 2 * wins row)
      \<and> sum_list (map wins (g_standings g)) = int (length (schedule_df d))
      \<and> sum_list (map losses (g_standings g)) = int (length (schedule_df d))"
proof -
  from simulate_group_stage_returns [OF assms]
  obtain g k' where g: "simulate_group_stage d rs k = Inr (g, k')" by blast
  from simulate_group_stage_correct [OF g] g show ?thesis by auto
qed

theorem group_stage_one_result_per_fixture_witness:
  "\<exists>g. simulate_group_stage demo_tables demo_draws 0 = Inr (g, 2)
      \<and> list_all2 played (schedule_df demo_tables) (g_match_results g)
      \<and> list_all (\<lambda>row. points row = 2 * wins row) (g_standings g)
      \<and> sum_list (map wins (g_standings g)) = 2
      \<and> sum_list (map losses (g_standings g)) = 2"
proof -
  have h: "ratings_ok demo_tables" "teams demo_tables \<noteq> []"
    "\<forall>f \<in> set (schedule_df demo_tables).
       Team1 f \<in> set (teams demo_tables) \<and> Team2 f \<in> set (teams demo_tables)"
    by (simp_all add: demo_tables_def ratings_ok_def teams_def)
  have len: "0 + length (schedule_df demo_tables) = 2" "int (length (schedule_df demo_tables)) = 2"
    by (simp_all add: demo_tables_def)
  from group_stage_one_result_per_fixture [OF h, of demo_draws 0]
  show ?thesis unfolding len list_all_iff .
qed

text \<open>
  C4 does not hold of the group stage. \<^verbatim>\<open>calculate_win_probability\<close> and
  \<^verbatim>\<open>simulate_single_match\<close> substitute the neutral defaults for a missing rating or venue
  (lemmas \<open>calculate_win_probability_returns\<close> and \<open>simulate_single_match_returns\<close> ask
  nothing of the teams or the venue), but \<^verbatim>\<open>team_stats\<close> has keys for the rated teams
  only: a schedule with a fixture of an unrated team makes \<^verbatim>\<open>simulate_group_stage\<close> raise.
\<close>

theorem unrated_team_breaks_group_stage:
  assumes "f \<in> set (schedule_df d)" and "Team1 f \<notin> set (teams d) \<or> Team2 f \<notin> set (teams d)"
  shows "\<exists>e. simulate_group_stage d rs k = Inl e"
proof (cases "simulate_group_stage d rs k")
  case (Inl e)
  then show ?thesis by blast
next
  case (Inr res)
  obtain g k' where "res = (g, k')" by (cases res)
  with Inr simulate_group_stage_Inr [of d rs k g k'] obtain ts where
    "group_stage_loop d rs (schedule_df d)
       (map (\<lambda>t. (t, \<lparr>wins = 0, losses = 0, points = 0\<rparr>)) (dict_keys (teams d)), [], k)
     = Inr (ts, g_match_results g, k')" by blast
  from group_stage_loop_needs_keys [OF this] assms(1)
  have "Team1 f \<in> set (teams d) \<and> Team2 f \<in> set (teams d)"
    unfolding initial_stats dict_keys_set by blast
  with assms(2) show ?thesis by blast
qed

theorem unrated_team_breaks_group_stage_witness:
  "(\<exists>r. simulate_single_match unrated_tables
          \<lparr>Match_ID = 1, Team1 = ''Alpha'', Team2 = ''Gamma'', Venue = ''Nowhere''\<rparr>
          (demo_draws 0) = Inr r)
   \<and> simulate_group_stage unrated_tables demo_draws 0 = Inl (KeyError ''Gamma'')"
proof -
  have "\<exists>e. simulate_group_stage unrated_tables demo_draws 0 = Inl e"
    by (rule unrated_team_breaks_group_stage
          [of "\<lparr>Match_ID = 1, Team1 = ''Alpha'', Team2 = ''Gamma'', Venue = ''Nowhere''\<rparr>"])
       (simp_all add: unrated_tables_def teams_def)
  moreover have "simulate_group_stage unrated_tables demo_draws 0 = Inl (KeyError ''Gamma'')"
    by code_simp
  moreover have "\<exists>r. simulate_single_match unrated_tables
          \<lparr>Match_ID = 1, Team1 = ''Alpha'', Team2 = ''Gamma'', Venue = ''Nowhere''\<rparr>
          (demo_draws 0) = Inr r"
    by (rule simulate_single_match_returns) (simp_all add: unrated_tables_def ratings_ok_def)
  ultimately show ?thesis by blast
qed

section \<open>Properties of the playoffs and the Monte Carlo driver\<close>

lemma simulate_group_stage_length:
  assumes "simulate_group_stage d rs k = Inr (g, k')"
  shows "length (g_standings g) = length (dict_keys (teams d))"
proof -
  let ?init = "map (\<lambda>t. (t, \<lparr>wins = 0, losses = 0, points = 0\<rparr>)) (dict_keys (teams d))"
  from simulate_group_stage_Inr [OF assms] obtain ts where
    loop: "group_stage_loop d rs (schedule_df d) (?init, [], k) = Inr (ts, g_match_results g, k')"
    and st: "g_standings g = sort_values_desc (standings_ties (rs k')) points (standings_of ts)"
    by blast
  have di: "distinct (map fst ?init)"
    unfolding initial_stats by (rule dict_keys_distinct)
  from group_stage_loop_correct [OF loop di]
  have "map fst ts = dict_keys (teams d)" unfolding initial_stats by simp
  then have "length ts = length (dict_keys (teams d))" by (metis length_map)
  then show ?thesis by (simp add: st sort_values_desc_length standings_of_def)
qed

lemma top_3_determine_playoffs:
  "top_3 (determine_playoffs ties st) = map team (take 3 (sort_values_desc ties points st))"
  by (simp add: determine_playoffs_def Let_def)

lemma top_3_length: "length (top_3 (determine_playoffs ties st)) = min (length st) 3"
  by (simp add: top_3_determine_playoffs sort_values_desc_length)

lemma top_3_subset: "set (top_3 (determine_playoffs ties st)) \<subseteq> set (map team st)"
proof -
  have "set (take 3 (sort_values_desc ties points st)) \<subseteq> set st"
    using set_take_subset [of 3 "sort_values_desc ties points st"]
    by (simp add: sort_values_desc_set)
  then show ?thesis by (auto simp: top_3_determine_playoffs)
qed

lemma simulate_playoffs_winner:
  assumes "simulate_playoffs d pt rs k = Inr (w, k')" and "top_3 pt \<noteq> []"
  shows "w \<in> set (top_3 pt)"
proof (cases "length (top_3 pt) < 3")
  case True
  with assms show ?thesis
    by (cases "top_3 pt") (auto simp: simulate_playoffs_def)
next
  case False
  with assms(1) obtain r where
    r: "simulate_single_match d
          \<lparr>Match_ID = 999, Team1 = top_3 pt ! 0, Team2 = top_3 pt ! 1, Venue = lords\<rparr> (rs k) = Inr r"
    and w: "w = winner r"
    by (auto simp: simulate_playoffs_def Let_def split: sum.splits)
  from simulate_single_match_played [OF r]
  have "winner r = top_3 pt ! 0 \<or> winner r = top_3 pt ! 1"
    by (auto simp: played_def)
  moreover have "top_3 pt ! 0 \<in> set (top_3 pt)" "top_3 pt ! 1 \<in> set (top_3 pt)"
    using False by (auto intro: nth_mem)
  ultimately show ?thesis using w by auto
qed

lemma simulate_playoffs_no_final:
  assumes "999 \<notin> Match_ID ` set (schedule_df d)" and "3 \<le> length (top_3 pt)"
  shows "simulate_playoffs d pt rs k = Inl (ValueError 999)"
  using assms(2)
    simulate_single_match_absent
      [of "\<lparr>Match_ID = 999, Team1 = top_3 pt ! 0, Team2 = top_3 pt ! 1, Venue = lords\<rparr>" d "rs k"]
    assms(1)
  by (simp add: simulate_playoffs_def Let_def)

lemma run_simulation_Inr:
  assumes "run_simulation d rs k = Inr (res, k')"
  shows "\<exists>g k1. simulate_group_stage d rs k = Inr (g, k1)
           \<and> simulate_playoffs d (determine_playoffs (playoff_ties (rs k1)) (g_standings g)) rs k1 = Inr (sim_winner res, k')
           \<and> sim_standings res = g_standings g
           \<and> sim_playoff_teams res = determine_playoffs (playoff_ties (rs k1)) (g_standings g)
           \<and> sim_match_results res = g_match_results g"
  using assms
  by (auto simp: run_simulation_def Let_def split: sum.splits)

lemma champion_in_top_3:
  assumes "run_simulation d rs k = Inr (res, k')"
  shows "sim_winner res \<in> set (top_3 (sim_playoff_teams res))"
    and "set (top_3 (sim_playoff_teams res)) \<subseteq> set (teams d)"
proof -
  from run_simulation_Inr [OF assms] obtain g k1 where
    g: "simulate_group_stage d rs k = Inr (g, k1)"
    and p: "simulate_playoffs d (determine_playoffs (playoff_ties (rs k1)) (g_standings g)) rs k1 = Inr (sim_winner res, k')"
    and pt: "sim_playoff_teams res = determine_playoffs (playoff_ties (rs k1)) (g_standings g)" by blast
  from simulate_group_stage_correct [OF g]
  have ne: "g_standings g \<noteq> []" and s: "set (map team (g_standings g)) = set (teams d)" by simp_all
  from ne have "top_3 (determine_playoffs (playoff_ties (rs k1)) (g_standings g)) \<noteq> []"
    using top_3_length [of "playoff_ties (rs k1)" "g_standings g"]
    by (cases "g_standings g") auto
  from simulate_playoffs_winner [OF p this]
  show "sim_winner res \<in> set (top_3 (sim_playoff_teams res))" by (simp add: pt)
  show "set (top_3 (sim_playoff_teams res)) \<subseteq> set (teams d)"
    using top_3_subset [of "playoff_ties (rs k1)" "g_standings g"] s by (simp add: pt)
qed

lemma run_simulation_no_final:
  assumes "999 \<notin> Match_ID ` set (schedule_df d)" and "3 \<le> length (dict_keys (teams d))"
  shows "run_simulation d rs k \<noteq> Inr res"
proof
  assume a: "run_simulation d rs k = Inr res"
  obtain r k' where res: "res = (r, k')" by (cases res)
  from run_simulation_Inr [OF a [unfolded res]] obtain g k1 where
    g: "simulate_group_stage d rs k = Inr (g, k1)"
    and p: "simulate_playoffs d (determine_playoffs (playoff_ties (rs k1)) (g_standings g)) rs k1 = Inr (sim_winner r, k')"
    by blast
  have "3 \<le> length (top_3 (determine_playoffs (playoff_ties (rs k1)) (g_standings g)))"
    using simulate_group_stage_length [OF g] assms(2) by (simp add: top_3_length)
  from simulate_playoffs_no_final [OF assms(1) this] p show False by simp
qed

lemma run_simulation_no_final_error:
  assumes "999 \<notin> Match_ID ` set (schedule_df d)" and "3 \<le> length (dict_keys (teams d))"
    and "ratings_ok d"
    and "\<forall>f \<in> set (schedule_df d). Team1 f \<in> set (teams d) \<and> Team2 f \<in> set (teams d)"
  shows "run_simulation d rs k = Inl (ValueError 999)"
proof -
  from assms(2) have "dict_keys (teams d) \<noteq> []" by auto
  then have "teams d \<noteq> []" by (auto simp: dict_keys_def)
  from simulate_group_stage_returns [OF assms(3) this assms(4)]
  obtain g k1 where g: "simulate_group_stage d rs k = Inr (g, k1)" by blast
  have "3 \<le> length (top_3 (determine_playoffs (playoff_ties (rs k1)) (g_standings g)))"
    using simulate_group_stage_length [OF g] assms(2) by (simp add: top_3_length)
  from simulate_playoffs_no_final [OF assms(1) this] g show ?thesis
    by (simp add: run_simulation_def Let_def)
qed

text \<open>
  C7 does not hold of the code. The final is simulated under the match id 999, which
  \<^verbatim>\<open>calculate_win_probability\<close> looks up in the schedule: with three or more rated teams
  and no fixture 999, no run produces a champion, and \<^verbatim>\<open>run_multiple_simulations\<close> raises
  for every \<open>n \<ge> 1\<close>.
\<close>

theorem no_champion_without_match_999:
  assumes "999 \<notin> Match_ID ` set (schedule_df d)" and "3 \<le> length (dict_keys (teams d))"
    and "1 \<le> n"
  shows "\<exists>e. run_multiple_simulations d n rs = Inl e"
proof -
  from assms(3) obtain m where m: "nat n = Suc m" by (cases "nat n") auto
  have "\<exists>e. run_simulation d rs 0 = Inl e"
    using run_simulation_no_final [OF assms(1,2), of rs 0]
    by (cases "run_simulation d rs 0") auto
  then show ?thesis
    by (auto simp: run_multiple_simulations_def m)
qed

theorem no_champion_without_match_999_witness:
  "(\<exists>e. run_multiple_simulations demo_tables 1000 demo_draws = Inl e)
   \<and> run_simulation demo_tables demo_draws 0 = Inl (ValueError 999)
   \<and> run_multiple_simulations demo_tables 1 demo_draws = Inl (ValueError 999)"
proof -
  have h: "999 \<notin> Match_ID ` set (schedule_df demo_tables)"
    "3 \<le> length (dict_keys (teams demo_tables))" "ratings_ok demo_tables"
    "\<forall>f \<in> set (schedule_df demo_tables).
       Team1 f \<in> set (teams demo_tables) \<and> Team2 f \<in> set (teams demo_tables)"
    by (simp_all add: demo_tables_def teams_def dict_keys_def ratings_ok_def)
  have r: "run_simulation demo_tables demo_draws 0 = Inl (ValueError 999)"
    by (rule run_simulation_no_final_error [OF h])
  then have "run_multiple_simulations demo_tables 1 demo_draws = Inl (ValueError 999)"
    by (simp add: run_multiple_simulations_def)
  with r no_champion_without_match_999 [OF h(1,2), of 1000 demo_draws] show ?thesis by simp
qed

text \<open>
  C3 does not hold of the code. With \<open>n = 0\<close> the driver runs no simulation and returns the
  empty aggregate; \<^verbatim>\<open>analyze_results\<close> then divides by \<^verbatim>\<open>self.num_simulations = 0\<close> for
  the first team and raises \<^verbatim>\<open>ZeroDivisionError\<close> (with no team at all, sorting the empty
  frame raises \<^verbatim>\<open>KeyError\<close>). It never returns rows.
\<close>

theorem zero_simulations_divide_by_zero:
  "\<exists>sd. run_multiple_simulations d 0 rs = Inr sd \<and> winners sd = []
        \<and> analyze_results d 0 ties sd
            = (if teams d = [] then Inl (KeyError ''Win_Probability_%'')
               else Inl ZeroDivisionError)"
proof (cases "teams d")
  case Nil
  then show ?thesis by (simp add: run_multiple_simulations_def analyze_results_def)
next
  case (Cons t ts)
  then show ?thesis
    by (simp add: run_multiple_simulations_def analyze_results_def py_truediv_def)
qed

lemma zero_simulations_demo:
  "analyze_results demo_tables 0 ties
     \<lparr>winners = [], playoff_appearances = (\<lambda>_. 0), final_standings = (\<lambda>_. []),
      sample_match_results = []\<rparr> = Inl ZeroDivisionError"
  by (simp add: analyze_results_def teams_def demo_tables_def py_truediv_def)

lemma count_appearances_eq: "count_appearances ts pa t = pa t + int (count_list ts t)"
  unfolding count_appearances_def
  by (induction ts arbitrary: pa) auto

lemma count_list_member: "w \<in> set ts \<Longrightarrow> 1 \<le> count_list ts w"
  by (induction ts) auto

lemma track_run_titles:
  assumes "sim_winner res \<in> set (top_3 (sim_playoff_teams res))"
    and "titles_within_appearances sd"
  shows "titles_within_appearances (track_run i res sd)"
  unfolding titles_within_appearances_def
proof
  fix t
  have a: "int (count_list (winners sd) t) \<le> playoff_appearances sd t"
    using assms(2) by (simp add: titles_within_appearances_def)
  have b: "(if sim_winner res = t then 1 else 0)
             \<le> int (count_list (top_3 (sim_playoff_teams res)) t)"
    using count_list_member [OF assms(1)] by auto
  show "int (count_list (winners (track_run i res sd)) t)
          \<le> playoff_appearances (track_run i res sd) t"
    using a b by (auto simp: track_run_def count_appearances_eq)
qed

lemma simulations_loop_titles:
  assumes "simulations_loop d rs m i (sd, k) = Inr (sd', k')"
    and "titles_within_appearances sd"
  shows "titles_within_appearances sd'"
  using assms
proof (induction m arbitrary: i sd k)
  case 0
  then show ?case by simp
next
  case (Suc m)
  from Suc.prems(1) obtain res k1 where
    r: "run_simulation d rs k = Inr (res, k1)"
    and rec: "simulations_loop d rs m (Suc i) (track_run i res sd, k1) = Inr (sd', k')"
    by (auto split: sum.splits)
  from champion_in_top_3(1) [OF r] Suc.prems(2)
  have "titles_within_appearances (track_run i res sd)" by (rule track_run_titles)
  from Suc.IH [OF rec this] show ?case .
qed

lemma run_multiple_simulations_titles:
  assumes "run_multiple_simulations d n rs = Inr sd"
  shows "titles_within_appearances sd"
proof -
  let ?sd0 = "\<lparr>winners = [], playoff_appearances = (\<lambda>_. 0), final_standings = (\<lambda>_. []),
               sample_match_results = []\<rparr>"
  from assms obtain k' where
    "simulations_loop d rs (nat n) 0 (?sd0, 0) = Inr (sd, k')"
    by (auto simp: run_multiple_simulations_def split: sum.splits)
  moreover have "titles_within_appearances ?sd0"
    by (simp add: titles_within_appearances_def)
  ultimately show ?thesis by (rule simulations_loop_titles)
qed

lemma analysis_rows_shape:
  assumes "analysis_rows n sd ts = Inr rows"
  shows "map row_Team rows = ts
       \<and> list_all (\<lambda>row.
            Win_Probability row
              = py_round1 (of_nat (count_list (winners sd) (row_Team row)) / of_int n * 100)
          \<and> Playoff_Probability row
              = py_round1 (of_int (playoff_appearances sd (row_Team row)) / of_int n * 100)
          \<and> Titles_Won row = int (count_list (winners sd) (row_Team row))
          \<and> Playoff_Appearances row = playoff_appearances sd (row_Team row)) rows"
  using assms
proof (induction ts arbitrary: rows)
  case Nil
  then show ?case by simp
next
  case (Cons t ts)
  from Cons.prems obtain q1 q2 rest where
    q1: "py_truediv (of_nat (count_list (winners sd) t)) (of_int n) = Inr q1"
    and q2: "py_truediv (of_int (playoff_appearances sd t)) (of_int n) = Inr q2"
    and rest: "analysis_rows n sd ts = Inr rest"
    and rows: "rows = \<lparr>row_Team = t, Win_Probability = py_round1 (q1 * 100),
                Playoff_Probability = py_round1 (q2 * 100),
                Titles_Won = int (count_list (winners sd) t),
                Playoff_Appearances = playoff_appearances sd t\<rparr> # rest"
    by (auto split: sum.splits)
  from q1 q2 have "q1 = of_nat (count_list (winners sd) t) / of_int n"
    "q2 = of_int (playoff_appearances sd t) / of_int n"
    by (auto simp: py_truediv_def split: if_splits)
  with Cons.IH [OF rest] rows show ?case by simp
qed

lemma analysis_rows_returns:
  assumes "n \<noteq> 0"
  shows "\<exists>rows. analysis_rows n sd ts = Inr rows"
  using assms by (induction ts) (auto simp: py_truediv_def)

lemma analyze_results_Inr:
  assumes "analyze_results d n ties sd = Inr rows"
  shows "\<exists>rows0. analysis_rows n sd (teams d) = Inr rows0
           \<and> rows = sort_values_desc ties Win_Probability rows0"
  using assms by (auto simp: analyze_results_def split: sum.splits if_splits)

lemma percentage_mono:
  assumes "0 < n" and "a \<le> b"
  shows "py_round1 (of_int a / of_int n * 100) \<le> py_round1 (of_int b / of_int n * 100)"
proof (rule py_round1_mono)
  have "(of_int a :: rat) \<le> of_int b" using assms(2) by simp
  then have "(of_int a :: rat) / of_int n \<le> of_int b / of_int n"
    using assms(1) by (simp add: divide_right_mono)
  then show "(of_int a :: rat) / of_int n * 100 \<le> of_int b / of_int n * 100"
    by (rule mult_right_mono) simp
qed

lemma simulate_playoffs_returns:
  assumes "ratings_ok d" and "top_3 pt \<noteq> []"
    and "999 \<in> Match_ID ` set (schedule_df d) \<or> length (top_3 pt) < 3"
  shows "\<exists>w k'. simulate_playoffs d pt rs k = Inr (w, k')"
proof (cases "length (top_3 pt) < 3")
  case True
  with assms(2) show ?thesis
    by (cases "top_3 pt") (auto simp: simulate_playoffs_def)
next
  case False
  with assms(3) have "999 \<in> Match_ID ` set (schedule_df d)" by simp
  from simulate_single_match_returns
         [of "\<lparr>Match_ID = 999, Team1 = top_3 pt ! 0, Team2 = top_3 pt ! 1, Venue = lords\<rparr>" d "rs k"]
       this assms(1)
  obtain r where "simulate_single_match d
          \<lparr>Match_ID = 999, Team1 = top_3 pt ! 0, Team2 = top_3 pt ! 1, Venue = lords\<rparr> (rs k) = Inr r"
    by auto
  with False show ?thesis by (simp add: simulate_playoffs_def Let_def)
qed

lemma run_simulation_returns:
  assumes "ratings_ok d" and "teams d \<noteq> []"
    and "\<forall>f \<in> set (schedule_df d). Team1 f \<in> set (teams d) \<and> Team2 f \<in> set (teams d)"
    and "999 \<in> Match_ID ` set (schedule_df d) \<or> length (dict_keys (teams d)) < 3"
  shows "\<exists>res k'. run_simulation d rs k = Inr (res, k')"
proof -
  from simulate_group_stage_returns [OF assms(1-3)]
  obtain g k1 where g: "simulate_group_stage d rs k = Inr (g, k1)" by blast
  let ?pt = "determine_playoffs (playoff_ties (rs k1)) (g_standings g)"
  from simulate_group_stage_correct [OF g] have "g_standings g \<noteq> []" by simp
  then have ne: "top_3 ?pt \<noteq> []"
    using top_3_length [of "playoff_ties (rs k1)" "g_standings g"]
    by (cases "g_standings g") auto
  have "999 \<in> Match_ID ` set (schedule_df d) \<or> length (top_3 ?pt) < 3"
    using assms(4) simulate_group_stage_length [OF g] by (auto simp: top_3_length)
  from simulate_playoffs_returns [OF assms(1) ne this]
  obtain w k' where "simulate_playoffs d ?pt rs k1 = Inr (w, k')" by blast
  with g show ?thesis by (simp add: run_simulation_def Let_def)
qed

lemma simulations_loop_returns:
  assumes "ratings_ok d" and "teams d \<noteq> []"
    and "\<forall>f \<in> set (schedule_df d). Team1 f \<in> set (teams d) \<and> Team2 f \<in> set (teams d)"
    and "999 \<in> Match_ID ` set (schedule_df d) \<or> length (dict_keys (teams d)) < 3"
  shows "\<exists>sd' k'. simulations_loop d rs m i (sd, k) = Inr (sd', k')"
proof (induction m arbitrary: i sd k)
  case 0
  then show ?case by simp
next
  case (Suc m)
  from run_simulation_returns [OF assms] obtain res k1 where
    "run_simulation d rs k = Inr (res, k1)" by blast
  with Suc.IH [of "Suc i" "track_run i res sd" k1] show ?case by simp
qed

lemma run_multiple_simulations_returns:
  assumes "ratings_ok d" and "teams d \<noteq> []"
    and "\<forall>f \<in> set (schedule_df d). Team1 f \<in> set (teams d) \<and> Team2 f \<in> set (teams d)"
    and "999 \<in> Match_ID ` set (schedule_df d) \<or> length (dict_keys (teams d)) < 3"
  shows "\<exists>sd. run_multiple_simulations d n rs = Inr sd"
  using simulations_loop_returns [OF assms]
  by (simp add: run_multiple_simulations_def split: sum.splits) (metis old.sum.exhaust surj_pair sum.distinct(1))

lemma analyze_results_returns:
  assumes "n \<noteq> 0" and "teams d \<noteq> []"
  shows "\<exists>rows. analyze_results d n ties sd = Inr rows \<and> rows \<noteq> []"
proof -
  from analysis_rows_returns [OF assms(1)] obtain rows0 where
    r: "analysis_rows n sd (teams d) = Inr rows0" by blast
  from analysis_rows_shape [OF r] assms(2) have ne: "rows0 \<noteq> []" by auto
  then have "sort_values_desc ties Win_Probability rows0 \<noteq> []"
    using sort_values_desc_length [of ties Win_Probability rows0] by (cases rows0) auto
  with r ne show ?thesis by (simp add: analyze_results_def)
qed

text \<open>
  C8. Whenever \<open>n \<ge> 1\<close> simulations return and the analysis returns its table, every row
  has a playoff probability at least its win probability (and at least as many playoff
  appearances as titles): in every run that returns, the champion is one of that run's
  \<^verbatim>\<open>top_3\<close>, so every title is counted as an appearance too, and the two percentages are
  the same monotone function of the two counts.
\<close>

theorem playoff_probability_at_least_win_probability:
  assumes "1 \<le> n"
    and "run_multiple_simulations d n rs = Inr sd"
    and "analyze_results d n ties sd = Inr rows"
  shows "(\<forall>row \<in> set rows. Win_Probability row \<le> Playoff_Probability row
            \<and> Titles_Won row \<le> Playoff_Appearances row)
       \<and> (\<forall>k res k'. run_simulation d rs k = Inr (res, k') \<longrightarrow>
            sim_winner res \<in> set (top_3 (sim_playoff_teams res)))"
proof (intro conjI ballI allI impI)
  fix row assume row: "row \<in> set rows"
  from analyze_results_Inr [OF assms(3)] obtain rows0 where
    r0: "analysis_rows n sd (teams d) = Inr rows0"
    and s: "rows = sort_values_desc ties Win_Probability rows0" by blast
  from row s have "row \<in> set rows0" by (simp add: sort_values_desc_set)
  with analysis_rows_shape [OF r0] have
    w: "Win_Probability row
          = py_round1 (of_int (int (count_list (winners sd) (row_Team row))) / of_int n * 100)"
    and p: "Playoff_Probability row
          = py_round1 (of_int (playoff_appearances sd (row_Team row)) / of_int n * 100)"
    and t: "Titles_Won row = int (count_list (winners sd) (row_Team row))"
    and a: "Playoff_Appearances row = playoff_appearances sd (row_Team row)"
    by (auto simp: list_all_iff)
  have le: "int (count_list (winners sd) (row_Team row)) \<le> playoff_appearances sd (row_Team row)"
    using run_multiple_simulations_titles [OF assms(2)]
    by (simp add: titles_within_appearances_def)
  show "Win_Probability row \<le> Playoff_Probability row"
    unfolding w p using assms(1) le by (intro percentage_mono) simp_all
  show "Titles_Won row \<le> Playoff_Appearances row"
    unfolding t a by (rule le)
next
  fix k res k' assume "run_simulation d rs k = Inr (res, k')"
  then show "sim_winner res \<in> set (top_3 (sim_playoff_teams res))"
    by (rule champion_in_top_3(1))
qed

theorem playoff_probability_at_least_win_probability_witness:
  "\<exists>sd rows. run_multiple_simulations final_tables 2 demo_draws = Inr sd
     \<and> analyze_results final_tables 2 [1] sd = Inr rows \<and> rows \<noteq> []
     \<and> list_all (\<lambda>row. Win_Probability row \<le> Playoff_Probability row
                    \<and> Titles_Won row \<le> Playoff_Appearances row) rows"
proof -
  have h: "ratings_ok final_tables" "teams final_tables \<noteq> []"
    "\<forall>f \<in> set (schedule_df final_tables).
       Team1 f \<in> set (teams final_tables) \<and> Team2 f \<in> set (teams final_tables)"
    "999 \<in> Match_ID ` set (schedule_df final_tables)
       \<or> length (dict_keys (teams final_tables)) < 3"
    by (simp_all add: final_tables_def teams_def ratings_ok_def)
  from run_multiple_simulations_returns [OF h] obtain sd where
    sd: "run_multiple_simulations final_tables 2 demo_draws = Inr sd" by blast
  from analyze_results_returns [of 2 final_tables "[1]" sd, OF _ h(2)] obtain rows where
    rows: "analyze_results final_tables 2 [1] sd = Inr rows" "rows \<noteq> []" by auto
  from playoff_probability_at_least_win_probability [OF _ sd rows(1)]
  have "list_all (\<lambda>row. Win_Probability row \<le> Playoff_Probability row
                    \<and> Titles_Won row \<le> Playoff_Appearances row) rows"
    by (simp add: list_all_iff)
  with sd rows show ?thesis by blast
qed

text \<open>
  What C7 asks for does hold of the runs that return: with distinct team names in the
  ratings table, the table has one row per team and the titles sum to \<open>n\<close>.
\<close>

lemma count_list_sum_distinct:
  assumes "distinct ts" and "set ws \<subseteq> set ts"
  shows "sum_list (map (\<lambda>t. int (count_list ws t)) ts) = int (length ws)"
  using assms(2)
proof (induction ws)
  case Nil
  then show ?case by simp
next
  case (Cons w ws)
  then have w: "w \<in> set ts" and ih: "sum_list (map (\<lambda>t. int (count_list ws t)) ts) = int (length ws)"
    by simp_all
  have one: "sum_list (map (\<lambda>t. if w = t then 1 else 0) ts) = (1::int)"
    using assms(1) w
  proof (induction ts)
    case Nil
    then show ?case by simp
  next
    case (Cons a ts)
    show ?case
    proof (cases "w = a")
      case True
      with Cons.prems have "w \<notin> set ts" by simp
      then have "sum_list (map (\<lambda>t. if w = t then 1 else 0) ts) = (0::int)"
        by (induction ts) auto
      with True show ?thesis by simp
    next
      case False
      with Cons show ?thesis by simp
    qed
  qed
  have "sum_list (map (\<lambda>t. int (count_list (w # ws) t)) ts)
          = sum_list (map (\<lambda>t. int (count_list ws t) + (if w = t then 1 else 0)) ts)"
    by (rule arg_cong [where f = sum_list]) (auto intro: map_cong)
  also have "\<dots> = sum_list (map (\<lambda>t. int (count_list ws t)) ts)
                  + sum_list (map (\<lambda>t. if w = t then 1 else 0) ts)"
    by (induction ts) simp_all
  finally show ?case using ih one by simp
qed

lemma simulations_loop_winners:
  assumes "simulations_loop d rs m i (sd, k) = Inr (sd', k')"
    and "set (winners sd) \<subseteq> set (teams d)"
  shows "length (winners sd') = length (winners sd) + m \<and> set (winners sd') \<subseteq> set (teams d)"
  using assms
proof (induction m arbitrary: i sd k)
  case 0
  then show ?case by simp
next
  case (Suc m)
  from Suc.prems(1) obtain res k1 where
    r: "run_simulation d rs k = Inr (res, k1)"
    and rec: "simulations_loop d rs m (Suc i) (track_run i res sd, k1) = Inr (sd', k')"
    by (auto split: sum.splits)
  from champion_in_top_3 [OF r] have "sim_winner res \<in> set (teams d)" by blast
  with Suc.prems(2) have "set (winners (track_run i res sd)) \<subseteq> set (teams d)"
    by (simp add: track_run_def)
  from Suc.IH [OF rec this] show ?case by (simp add: track_run_def)
qed

lemma titles_sum_when_runs_complete:
  assumes "0 \<le> n" and "distinct (teams d)"
    and "run_multiple_simulations d n rs = Inr sd"
    and "analyze_results d n ties sd = Inr rows"
  shows "sum_list (map Titles_Won rows) = n \<and> length rows = length (teams d)
         \<and> set (map row_Team rows) = set (teams d)"
proof -
  let ?sd0 = "\<lparr>winners = [], playoff_appearances = (\<lambda>_. 0), final_standings = (\<lambda>_. []),
               sample_match_results = []\<rparr>"
  from assms(3) obtain k' where
    "simulations_loop d rs (nat n) 0 (?sd0, 0) = Inr (sd, k')"
    by (auto simp: run_multiple_simulations_def split: sum.splits)
  from simulations_loop_winners [OF this]
  have w: "length (winners sd) = nat n" "set (winners sd) \<subseteq> set (teams d)" by simp_all
  from analyze_results_Inr [OF assms(4)] obtain rows0 where
    r0: "analysis_rows n sd (teams d) = Inr rows0"
    and s: "rows = sort_values_desc ties Win_Probability rows0" by blast
  from analysis_rows_shape [OF r0] have
    t: "map row_Team rows0 = teams d"
    and tw: "\<forall>row \<in> set rows0. Titles_Won row = int (count_list (winners sd) (row_Team row))"
    by (auto simp: list_all_iff)
  have "map Titles_Won rows0 = map (\<lambda>t. int (count_list (winners sd) t)) (map row_Team rows0)"
    using tw by (simp add: comp_def)
  then have "sum_list (map Titles_Won rows0) = int (length (winners sd))"
    unfolding t using count_list_sum_distinct [OF assms(2) w(2)] by simp
  then have "sum_list (map Titles_Won rows0) = n" using w(1) assms(1) by simp
  moreover have "length rows0 = length (teams d)" using t by (metis length_map)
  moreover have "set (map row_Team rows) = set (map row_Team rows0)"
    unfolding s by (simp add: sort_values_desc_set)
  ultimately show ?thesis
    by (simp add: s sort_values_desc_sum sort_values_desc_length t)
qed

section \<open>Properties of the crucial-match extraction\<close>

lemma py_round1_fixed:
  assumes "py_round1 x = x"
  shows "\<exists>k. x = of_int k / 10"
  using assms unfolding py_round1_def by metis

lemma py_round1_idem: "py_round1 (py_round1 x) = py_round1 x"
  unfolding py_round1_def [of x] by (rule py_round1_tenth)

lemma importance_exact:
  assumes "py_round1 p1 = p1" and "py_round1 p2 = p2"
  shows "py_round1 (100 - \<bar>p1 - p2\<bar>) = 100 - \<bar>p1 - p2\<bar>"
proof -
  from py_round1_fixed [OF assms(1)] py_round1_fixed [OF assms(2)]
  obtain a b where p: "p1 = of_int a / 10" "p2 = of_int b / 10" by blast
  have "\<bar>p1 - p2\<bar> = of_int \<bar>a - b\<bar> / 10"
    unfolding p by (simp add: diff_divide_distrib [symmetric] del: of_int_diff)
  then have "100 - \<bar>p1 - p2\<bar> = of_int (1000 - \<bar>a - b\<bar>) / 10"
    by (simp add: diff_divide_distrib)
  then show ?thesis by (simp only: py_round1_tenth)
qed

text \<open>
  Every result of the simulator has one-decimal probabilities, and so has every sample
  that \<^verbatim>\<open>run_multiple_simulations\<close> returns.
\<close>

lemma simulate_single_match_one_decimal:
  assumes "simulate_single_match d f dr = Inr r"
  shows "one_decimal r"
proof -
  from assms obtain res where
    c: "calculate_win_probability d (Match_ID f) (if toss_pick dr then ''Team A'' else ''Team B'')
          (simulate_optimal_toss_decision d (Venue f) dr) (h2h_total dr) = Inr res"
    and r: "win_prob_team1 r = fst (win_prob res)" "win_prob_team2 r = snd (win_prob res)"
    by (auto simp: simulate_single_match_def Let_def split: sum.splits)
  from calculate_win_probability_Inr [OF c] obtain b where
    "win_prob res = clamp_probs b" by blast
  then show ?thesis
    by (simp add: one_decimal_def r clamp_probs_def Let_def py_round1_idem)
qed

lemma group_stage_loop_one_decimal:
  assumes "group_stage_loop d rs sched (ts, mr, k) = Inr (ts', mr', k')"
    and "list_all one_decimal mr"
  shows "list_all one_decimal mr'"
  using assms
proof (induction sched arbitrary: ts mr k)
  case Nil
  then show ?case by simp
next
  case (Cons f rest)
  from Cons.prems(1) obtain r ts3 where
    r: "simulate_single_match d f (rs k) = Inr r"
    and rec: "group_stage_loop d rs rest (ts3, mr @ [r], Suc k) = Inr (ts', mr', k')"
    by (auto split: sum.splits)
  have "list_all one_decimal (mr @ [r])"
    using Cons.prems(2) simulate_single_match_one_decimal [OF r] by simp
  from Cons.IH [OF rec this] show ?case .
qed

lemma run_simulation_one_decimal:
  assumes "run_simulation d rs k = Inr (res, k')"
  shows "list_all one_decimal (sim_match_results res)"
proof -
  from run_simulation_Inr [OF assms] obtain g k1 where
    g: "simulate_group_stage d rs k = Inr (g, k1)"
    and m: "sim_match_results res = g_match_results g" by blast
  from simulate_group_stage_Inr [OF g] obtain ts where
    "group_stage_loop d rs (schedule_df d)
       (map (\<lambda>t. (t, \<lparr>wins = 0, losses = 0, points = 0\<rparr>)) (dict_keys (teams d)), [], k)
     = Inr (ts, g_match_results g, k1)" by blast
  from group_stage_loop_one_decimal [OF this] show ?thesis by (simp add: m)
qed

lemma simulations_loop_one_decimal:
  assumes "simulations_loop d rs m i (sd, k) = Inr (sd', k')"
    and "list_all one_decimal (sample_match_results sd)"
  shows "list_all one_decimal (sample_match_results sd')"
  using assms
proof (induction m arbitrary: i sd k)
  case 0
  then show ?case by simp
next
  case (Suc m)
  from Suc.prems(1) obtain res k1 where
    r: "run_simulation d rs k = Inr (res, k1)"
    and rec: "simulations_loop d rs m (Suc i) (track_run i res sd, k1) = Inr (sd', k')"
    by (auto split: sum.splits)
  have "list_all one_decimal (sample_match_results (track_run i res sd))"
    using run_simulation_one_decimal [OF r] Suc.prems(2) by (simp add: track_run_def)
  from Suc.IH [OF rec this] show ?case .
qed

lemma sample_match_results_one_decimal:
  assumes "run_multiple_simulations d n rs = Inr sd"
  shows "list_all one_decimal (sample_match_results sd)"
proof -
  let ?sd0 = "\<lparr>winners = [], playoff_appearances = (\<lambda>_. 0), final_standings = (\<lambda>_. []),
               sample_match_results = []\<rparr>"
  from assms obtain k' where
    "simulations_loop d rs (nat n) 0 (?sd0, 0) = Inr (sd, k')"
    by (auto simp: run_multiple_simulations_def split: sum.splits)
  moreover have "list_all one_decimal (sample_match_results ?sd0)" by simp
  ultimately show ?thesis by (rule simulations_loop_one_decimal)
qed

text \<open>The two sorts of this function.\<close>

lemma sort_reverse_set: "set (sort_reverse key xs) = set xs"
  by (simp add: sort_reverse_def)

lemma sort_reverse_sorted:
  "sorted_wrt (\<lambda>a b. key b \<le> key a) (sort_reverse key xs)"
proof -
  have "sorted (map (\<lambda>x. - key x) (sort_key (\<lambda>x. - key x) xs))"
    by (rule sorted_sort_key)
  then show ?thesis
    by (simp add: sort_reverse_def sorted_wrt_map)
qed

lemma sorted_wrt_take_drop:
  assumes "sorted_wrt P xs"
  shows "\<forall>a \<in> set (take n xs). \<forall>b \<in> set (drop n xs). P a b"
proof -
  have "sorted_wrt P (take n xs @ drop n xs)" using assms by simp
  then show ?thesis unfolding sorted_wrt_append by blast
qed

lemma top_teams_empty:
  assumes "team_ratings_df d = []"
  shows "top_teams d = Inl TypeError"
  using assms by (simp add: top_teams_def nlargest_def)

lemma top_teams_highest_rated:
  assumes "team_ratings_df d \<noteq> []"
  shows "\<exists>best others. top_teams d = Inr (map Team best)
      \<and> set best \<union> set others = set (team_ratings_df d)
      \<and> length best = min 4 (length (team_ratings_df d))
      \<and> (\<forall>a \<in> set best. \<forall>b \<in> set others. Overall_Rating b \<le> Overall_Rating a)"
proof -
  let ?s = "sort_key (\<lambda>row. - Overall_Rating row) (team_ratings_df d)"
  have t: "top_teams d = Inr (map Team (take 4 ?s))"
    using assms by (simp add: top_teams_def nlargest_def)
  have "sorted (map (\<lambda>row. - Overall_Rating row) ?s)" by (rule sorted_sort_key)
  then have srt: "sorted_wrt (\<lambda>a b. Overall_Rating b \<le> Overall_Rating a) ?s"
    by (simp add: sorted_wrt_map)
  have "set (take 4 ?s) \<union> set (drop 4 ?s) = set (team_ratings_df d)"
    by (metis append_take_drop_id set_append set_sort)
  moreover have "length (take 4 ?s) = min 4 (length (team_ratings_df d))"
    by (simp add: min.commute)
  moreover have "\<forall>a \<in> set (take 4 ?s). \<forall>b \<in> set (drop 4 ?s). Overall_Rating b \<le> Overall_Rating a"
    by (rule sorted_wrt_take_drop [OF srt])
  ultimately show ?thesis using t by blast
qed

lemma find_crucial_matches_empty_ratings:
  assumes "team_ratings_df d = []"
  shows "find_crucial_matches d ms = Inl TypeError"
  using top_teams_empty [OF assms] by (simp add: find_crucial_matches_def)

text \<open>
  C10 as stated fails on a ratings table without a data row: \<^verbatim>\<open>nlargest\<close> on line 239
  raises \<^verbatim>\<open>TypeError\<close> before the sample is read, for every sample, so also for a sample
  with no fixture between two top-4 teams, for which the claim says the empty list and no
  error. Such a sample exists: with \<^verbatim>\<open>num_simulations = 0\<close> the driver returns the empty
  sample over these tables.
\<close>

theorem crucial_matches_header_only_counterexample:
  "team_ratings_df header_only_tables = []
   \<and> map_sum id sample_match_results (run_multiple_simulations header_only_tables 0 demo_draws)
       = Inr []
   \<and> top_teams header_only_tables = Inl TypeError
   \<and> find_crucial_matches header_only_tables [] = Inl TypeError
   \<and> find_crucial_matches header_only_tables [] \<noteq> Inr []
   \<and> find_crucial_matches header_only_tables
        [sample_result 2 ''Gamma'' ''Delta'' 40, sample_result 3 ''Zeta'' ''Alpha'' 30]
       = Inl TypeError"
  by (simp add: header_only_tables_def run_multiple_simulations_def find_crucial_matches_def
      top_teams_def nlargest_def)

text \<open>
  C10, amended. On a ratings table without a data row \<^verbatim>\<open>find_crucial_matches\<close> raises
  \<^verbatim>\<open>TypeError\<close>, whatever the sample. On a ratings table with at least one row it returns,
  for any list of match results: every entry comes from a match of the list whose two
  teams are both among the four highest-rated teams (\<open>top_teams\<close>, see
  \<open>top_teams_highest_rated\<close>); its score is \<open>100 - |winProb1 - winProb2|\<close>, stored rounded to
  one decimal, which is \<open>100 - |winProb1 - winProb2|\<close> itself when both probabilities have at
  most one decimal, and so for every sample that \<^verbatim>\<open>run_multiple_simulations\<close> returns; the
  entries are in descending order of the score; there are at most 5; every qualifying
  match that is not returned scores no more than every returned one; and with no
  qualifying match the result is the empty list.
\<close>

theorem crucial_matches_top_five:
  "(team_ratings_df d = [] \<longrightarrow> find_crucial_matches d ms = Inl TypeError)
   \<and> (team_ratings_df d \<noteq> [] \<longrightarrow>
        (\<exists>top4 cs. top_teams d = Inr top4 \<and> find_crucial_matches d ms = Inr cs
           \<and> (\<forall>c \<in> set cs. \<exists>m \<in> set ms. between top4 m
                 \<and> c_match_id c = r_match_id m \<and> c_winner c = winner m \<and> c_venue c = r_venue m
                 \<and> importance_score c = py_round1 (100 - \<bar>win_prob_team1 m - win_prob_team2 m\<bar>)
                 \<and> (one_decimal m
                      \<longrightarrow> importance_score c = 100 - \<bar>win_prob_team1 m - win_prob_team2 m\<bar>))
           \<and> ((\<exists>n rs sd. run_multiple_simulations d n rs = Inr sd
                            \<and> ms = sample_match_results sd) \<longrightarrow>
                 (\<forall>c \<in> set cs. \<exists>m \<in> set ms. between top4 m \<and> c_match_id c = r_match_id m
                    \<and> importance_score c = 100 - \<bar>win_prob_team1 m - win_prob_team2 m\<bar>))
           \<and> sorted_wrt (\<lambda>a b. importance_score b \<le> importance_score a) cs
           \<and> length cs \<le> 5
           \<and> (\<forall>m \<in> set ms. between top4 m \<longrightarrow>
                 crucial_of m \<in> set cs
                 \<or> (\<forall>c \<in> set cs. importance_score (crucial_of m) \<le> importance_score c))
           \<and> ((\<forall>m \<in> set ms. \<not> between top4 m) \<longrightarrow> cs = [])))"
proof (intro conjI impI)
  assume "team_ratings_df d = []"
  then show "find_crucial_matches d ms = Inl TypeError"
    by (rule find_crucial_matches_empty_ratings)
next
  assume ne: "team_ratings_df d \<noteq> []"
  from top_teams_highest_rated [OF ne] obtain top4 where t: "top_teams d = Inr top4" by blast
  define cand where "cand = map crucial_of (filter (between top4) ms)"
  define srt where "srt = sort_reverse importance_score cand"
  have f: "find_crucial_matches d ms = Inr (take 5 srt)"
    by (simp add: find_crucial_matches_def t cand_def srt_def Let_def between_def [abs_def])
  have s: "set srt = set cand" by (simp add: srt_def sort_reverse_set)
  have sorted: "sorted_wrt (\<lambda>a b. importance_score b \<le> importance_score a) srt"
    unfolding srt_def by (rule sort_reverse_sorted)
  have 1: "\<forall>c \<in> set (take 5 srt). \<exists>m \<in> set ms. between top4 m
       \<and> c_match_id c = r_match_id m \<and> c_winner c = winner m \<and> c_venue c = r_venue m
       \<and> importance_score c = py_round1 (100 - \<bar>win_prob_team1 m - win_prob_team2 m\<bar>)
       \<and> (one_decimal m
            \<longrightarrow> importance_score c = 100 - \<bar>win_prob_team1 m - win_prob_team2 m\<bar>)"
  proof
    fix c assume "c \<in> set (take 5 srt)"
    then have "c \<in> set cand" using s by (auto dest: in_set_takeD)
    then obtain m where m: "m \<in> set ms" "between top4 m" "c = crucial_of m"
      by (auto simp: cand_def)
    have "importance_score c = py_round1 (100 - \<bar>win_prob_team1 m - win_prob_team2 m\<bar>)"
      "c_match_id c = r_match_id m" "c_winner c = winner m" "c_venue c = r_venue m"
      by (simp_all add: m(3) crucial_of_def Let_def)
    with m(1,2) importance_exact [of "win_prob_team1 m" "win_prob_team2 m"]
    show "\<exists>m \<in> set ms. between top4 m
       \<and> c_match_id c = r_match_id m \<and> c_winner c = winner m \<and> c_venue c = r_venue m
       \<and> importance_score c = py_round1 (100 - \<bar>win_prob_team1 m - win_prob_team2 m\<bar>)
       \<and> (one_decimal m
            \<longrightarrow> importance_score c = 100 - \<bar>win_prob_team1 m - win_prob_team2 m\<bar>)"
      by (intro bexI [of _ m]) (auto simp: one_decimal_def)
  qed
  have 2: "(\<exists>n rs sd. run_multiple_simulations d n rs = Inr sd \<and> ms = sample_match_results sd)
        \<longrightarrow> (\<forall>c \<in> set (take 5 srt). \<exists>m \<in> set ms. between top4 m
                \<and> c_match_id c = r_match_id m
                \<and> importance_score c = 100 - \<bar>win_prob_team1 m - win_prob_team2 m\<bar>)"
  proof (intro impI ballI)
    fix c
    assume "\<exists>n rs sd. run_multiple_simulations d n rs = Inr sd \<and> ms = sample_match_results sd"
      and c: "c \<in> set (take 5 srt)"
    then have all: "\<forall>m \<in> set ms. one_decimal m"
      using sample_match_results_one_decimal by (auto simp: list_all_iff)
    from 1 c obtain m where "m \<in> set ms" "between top4 m" "c_match_id c = r_match_id m"
      "one_decimal m \<longrightarrow> importance_score c = 100 - \<bar>win_prob_team1 m - win_prob_team2 m\<bar>"
      by blast
    with all show "\<exists>m \<in> set ms. between top4 m \<and> c_match_id c = r_match_id m
        \<and> importance_score c = 100 - \<bar>win_prob_team1 m - win_prob_team2 m\<bar>"
      by blast
  qed
  have 3: "sorted_wrt (\<lambda>a b. importance_score b \<le> importance_score a) (take 5 srt)"
    using sorted by (rule sorted_wrt_take)
  have 4: "length (take 5 srt) \<le> 5" by simp
  have 5: "\<forall>m \<in> set ms. between top4 m \<longrightarrow>
         crucial_of m \<in> set (take 5 srt)
         \<or> (\<forall>c \<in> set (take 5 srt). importance_score (crucial_of m) \<le> importance_score c)"
  proof (intro ballI impI)
    fix m assume "m \<in> set ms" and "between top4 m"
    then have "crucial_of m \<in> set cand" by (auto simp: cand_def)
    then have "crucial_of m \<in> set (take 5 srt) \<union> set (drop 5 srt)"
      using s by (metis append_take_drop_id set_append)
    then show "crucial_of m \<in> set (take 5 srt)
         \<or> (\<forall>c \<in> set (take 5 srt). importance_score (crucial_of m) \<le> importance_score c)"
      using sorted_wrt_take_drop [OF sorted, of 5] by blast
  qed
  have 6: "(\<forall>m \<in> set ms. \<not> between top4 m) \<longrightarrow> take 5 srt = []"
  proof
    assume "\<forall>m \<in> set ms. \<not> between top4 m"
    then have "cand = []" by (simp add: cand_def filter_empty_conv)
    then show "take 5 srt = []" by (simp add: srt_def sort_reverse_def)
  qed
  from t f 1 2 3 4 5 6
  show "\<exists>top4 cs. top_teams d = Inr top4 \<and> find_crucial_matches d ms = Inr cs
           \<and> (\<forall>c \<in> set cs. \<exists>m \<in> set ms. between top4 m
                 \<and> c_match_id c = r_match_id m \<and> c_winner c = winner m \<and> c_venue c = r_venue m
                 \<and> importance_score c = py_round1 (100 - \<bar>win_prob_team1 m - win_prob_team2 m\<bar>)
                 \<and> (one_decimal m
                      \<longrightarrow> importance_score c = 100 - \<bar>win_prob_team1 m - win_prob_team2 m\<bar>))
           \<and> ((\<exists>n rs sd. run_multiple_simulations d n rs = Inr sd
                            \<and> ms = sample_match_results sd) \<longrightarrow>
                 (\<forall>c \<in> set cs. \<exists>m \<in> set ms. between top4 m \<and> c_match_id c = r_match_id m
                    \<and> importance_score c = 100 - \<bar>win_prob_team1 m - win_prob_team2 m\<bar>))
           \<and> sorted_wrt (\<lambda>a b. importance_score b \<le> importance_score a) cs
           \<and> length cs \<le> 5
           \<and> (\<forall>m \<in> set ms. between top4 m \<longrightarrow>
                 crucial_of m \<in> set cs
                 \<or> (\<forall>c \<in> set cs. importance_score (crucial_of m) \<le> importance_score c))
           \<and> ((\<forall>m \<in> set ms. \<not> between top4 m) \<longrightarrow> cs = [])"
    by (intro exI [of _ top4] exI [of _ "take 5 srt"] conjI) assumption+
qed

theorem crucial_matches_top_five_witness:
  "top_teams league_tables = Inr [''Alpha'', ''Delta'', ''Beta'', ''Epsilon'']
   \<and> map_sum id (map c_match_id) (find_crucial_matches league_tables sample_results)
       = Inr [5, 9, 3, 7, 8]
   \<and> map_sum id (map importance_score) (find_crucial_matches league_tables sample_results)
       = Inr [100, 100, 479 / 5, 479 / 5, 90]
   \<and> (\<exists>cs. find_crucial_matches league_tables sample_results = Inr cs
          \<and> sorted_wrt (\<lambda>a b. importance_score b \<le> importance_score a) cs \<and> length cs \<le> 5)
   \<and> find_crucial_matches league_tables
        [sample_result 2 ''Gamma'' ''Delta'' 40, sample_result 3 ''Zeta'' ''Alpha'' 30] = Inr []
   \<and> find_crucial_matches header_only_tables sample_results = Inl TypeError
   \<and> (\<exists>sd cs. run_multiple_simulations final_tables 1 demo_draws = Inr sd
          \<and> find_crucial_matches final_tables (sample_match_results sd) = Inr cs
          \<and> list_all (\<lambda>c. list_ex (\<lambda>m. c_match_id c = r_match_id m
                 \<and> importance_score c = 100 - \<bar>win_prob_team1 m - win_prob_team2 m\<bar>)
               (sample_match_results sd)) cs)"
proof -
  have ne: "team_ratings_df league_tables \<noteq> []" "team_ratings_df final_tables \<noteq> []"
    "team_ratings_df header_only_tables = []"
    by (simp_all add: league_tables_def final_tables_def header_only_tables_def)
  have t: "top_teams league_tables = Inr [''Alpha'', ''Delta'', ''Beta'', ''Epsilon'']"
    by code_simp
  have a: "map_sum id (map c_match_id) (find_crucial_matches league_tables sample_results)
       = Inr [5, 9, 3, 7, 8]"
    by code_simp
  have b: "map_sum id (map importance_score) (find_crucial_matches league_tables sample_results)
       = Inr [100, 100, 479 / 5, 479 / 5, 90]"
    by code_simp
  from crucial_matches_top_five [of league_tables sample_results] ne(1)
  have c: "\<exists>cs. find_crucial_matches league_tables sample_results = Inr cs
          \<and> sorted_wrt (\<lambda>a b. importance_score b \<le> importance_score a) cs \<and> length cs \<le> 5"
    by blast
  have n: "\<forall>m \<in> set [sample_result 2 ''Gamma'' ''Delta'' 40, sample_result 3 ''Zeta'' ''Alpha'' 30].
             \<not> between [''Alpha'', ''Delta'', ''Beta'', ''Epsilon''] m"
    by (simp add: sample_result_def between_def)
  from crucial_matches_top_five [of league_tables
          "[sample_result 2 ''Gamma'' ''Delta'' 40, sample_result 3 ''Zeta'' ''Alpha'' 30]"]
       ne(1) n
  have e: "find_crucial_matches league_tables
        [sample_result 2 ''Gamma'' ''Delta'' 40, sample_result 3 ''Zeta'' ''Alpha'' 30] = Inr []"
    unfolding t by blast
  from crucial_matches_top_five [of header_only_tables sample_results] ne(3)
  have f: "find_crucial_matches header_only_tables sample_results = Inl TypeError"
    by blast
  have h: "ratings_ok final_tables" "teams final_tables \<noteq> []"
    "\<forall>f \<in> set (schedule_df final_tables).
       Team1 f \<in> set (teams final_tables) \<and> Team2 f \<in> set (teams final_tables)"
    "999 \<in> Match_ID ` set (schedule_df final_tables)
       \<or> length (dict_keys (teams final_tables)) < 3"
    by (simp_all add: final_tables_def teams_def ratings_ok_def)
  from run_multiple_simulations_returns [OF h] obtain sd where
    sd: "run_multiple_simulations final_tables 1 demo_draws = Inr sd" by blast
  from crucial_matches_top_five [of final_tables "sample_match_results sd"] ne(2) sd
  obtain cs where cs: "find_crucial_matches final_tables (sample_match_results sd) = Inr cs"
    and "\<forall>c \<in> set cs. \<exists>m \<in> set (sample_match_results sd). c_match_id c = r_match_id m
           \<and> importance_score c = 100 - \<bar>win_prob_team1 m - win_prob_team2 m\<bar>"
    by blast
  then have "list_all (\<lambda>c. list_ex (\<lambda>m. c_match_id c = r_match_id m
                 \<and> importance_score c = 100 - \<bar>win_prob_team1 m - win_prob_team2 m\<bar>)
               (sample_match_results sd)) cs"
    by (simp add: list_all_iff list_ex_iff)
  with sd cs have g: "\<exists>sd cs. run_multiple_simulations final_tables 1 demo_draws = Inr sd
          \<and> find_crucial_matches final_tables (sample_match_results sd) = Inr cs
          \<and> list_all (\<lambda>c. list_ex (\<lambda>m. c_match_id c = r_match_id m
                 \<and> importance_score c = 100 - \<bar>win_prob_team1 m - win_prob_team2 m\<bar>)
               (sample_match_results sd)) cs"
    by blast
  from t a b c e f g show ?thesis by (intro conjI)
qed

section \<open>Properties of the win-probability model under binary64 rounding\<close>

text \<open>With the identity as rounding the parametrised analyzer is the exact one.\<close>

lemma exact_parts:
  "py_truediv_fl (\<lambda>x. x) = py_truediv"
  "py_round1_fl (\<lambda>x. x) = py_round1"
  "get_head_to_head_record_fl (\<lambda>x. x) = get_head_to_head_record"
  "base_prob_h2h_fl (\<lambda>x. x) = base_prob_h2h"
  "apply_toss_fl (\<lambda>x. x) = apply_toss"
  by (intro ext, simp add: py_truediv_fl_def py_truediv_def py_round1_fl_def
        get_head_to_head_record_fl_def get_head_to_head_record_def
        base_prob_h2h_fl_def base_prob_h2h_def apply_toss_fl_def apply_toss_def)+

lemma exact_parts':
  "bat_vs_bowl_fl (\<lambda>x. x) = bat_vs_bowl"
  "normalize_probs_fl (\<lambda>x. x) = normalize_probs"
  "clamp_probs_fl (\<lambda>x. x) = clamp_probs"
  unfolding bat_vs_bowl_fl_def bat_vs_bowl_def normalize_probs_fl_def normalize_probs_def
    clamp_probs_fl_def clamp_probs_def exact_parts
  by (rule refl)+

lemma exact_instance:
  "calculate_win_probability_fl (\<lambda>x. x) = calculate_win_probability"
  unfolding calculate_win_probability_fl_def calculate_win_probability_def
    exact_parts exact_parts'
  by (rule refl)

text \<open>
  The exponent is the right one, and \<open>b64\<close> is monotone against integers of the grid and
  within half a unit in the last place of its argument.
\<close>

lemma powi_diff_nat: "(2::rat) powi (int a - int b) = 2 ^ a / 2 ^ b"
  by (simp add: power_int_diff)

lemma expo_lower:
  assumes "x \<noteq> 0"
  shows "2 powi (expo x) \<le> \<bar>x\<bar>"
proof -
  define p where "p = fst (quotient_of \<bar>x\<bar>)"
  define q where "q = snd (quotient_of \<bar>x\<bar>)"
  define k where "k = bitlen p - bitlen q"
  have q: "0 < q" unfolding q_def by (rule quotient_of_denom_pos')
  have a: "\<bar>x\<bar> = of_int p / of_int q"
    unfolding p_def q_def by (rule quotient_of_div) simp
  have "0 < \<bar>x\<bar>" using assms by simp
  with a q have p: "0 < p" by (simp add: zero_less_divide_iff)
  have e: "expo x = (if 2 powi k \<le> \<bar>x\<bar> then k else k - 1)"
    by (simp add: expo_def Let_def p_def q_def k_def)
  show ?thesis
  proof (cases "2 powi k \<le> \<bar>x\<bar>")
    case True
    with e show ?thesis by simp
  next
    case False
    from bitlen_bounds [OF p] have "2 ^ nat (bitlen p - 1) \<le> p" by simp
    then have lo: "(2::rat) ^ nat (bitlen p - 1) \<le> of_int p"
      by (metis of_int_le_iff of_int_numeral of_int_power)
    from bitlen_bounds [OF q] have "q < 2 ^ nat (bitlen q)" by simp
    then have hi: "of_int q < (2::rat) ^ nat (bitlen q)"
      by (metis of_int_less_iff of_int_numeral of_int_power)
    have bp: "1 \<le> bitlen p" and bq: "1 \<le> bitlen q"
      using p q by (auto simp: bitlen_alt_def)
    have "k - 1 = int (nat (bitlen p - 1)) - int (nat (bitlen q))"
      using bp bq by (simp add: k_def)
    then have "(2::rat) powi (k - 1) = 2 powi (int (nat (bitlen p - 1)) - int (nat (bitlen q)))"
      by simp
    also have "\<dots> = 2 ^ nat (bitlen p - 1) / 2 ^ nat (bitlen q)"
      by (rule powi_diff_nat)
    also have "\<dots> \<le> of_int p / 2 ^ nat (bitlen q)"
      using lo by (simp add: divide_right_mono)
    also have "\<dots> \<le> of_int p / of_int q"
      using hi p q by (simp add: frac_le)
    finally show ?thesis using False e a by simp
  qed
qed

lemma expo_bound:
  assumes "x \<noteq> 0" and "\<bar>x\<bar> < 2 powi n"
  shows "expo x < n"
proof (rule ccontr)
  assume "\<not> expo x < n"
  then have "(2::rat) powi n \<le> 2 powi (expo x)"
    by (intro power_int_increasing) simp_all
  with expo_lower [OF assms(1)] assms(2) show False by simp
qed

lemma b64_unfold:
  assumes "x \<noteq> 0"
  shows "b64 x = of_int (round_half_even (x / 2 powi (expo x - 52))) * 2 powi (expo x - 52)"
  using assms by (simp add: b64_def Let_def)

lemma int_on_grid:
  assumes "e \<le> 52"
  shows "\<exists>m. of_int n / (2::rat) powi (e - 52) = of_int m"
proof -
  have "e - 52 = - int (nat (52 - e))" using assms by simp
  then have "(2::rat) powi (e - 52) = 2 powi (- int (nat (52 - e)))" by simp
  also have "\<dots> = inverse (2 ^ nat (52 - e))"
    by (simp only: power_int_minus power_int_of_nat)
  finally have "(2::rat) powi (e - 52) = inverse (2 ^ nat (52 - e))" .
  then have "of_int n / (2::rat) powi (e - 52) = of_int (n * 2 ^ nat (52 - e))"
    by (simp add: field_simps)
  then show ?thesis by blast
qed

lemma b64_ge_int:
  assumes "of_int n \<le> x" and "expo x \<le> 52" and "x \<noteq> 0"
  shows "of_int n \<le> b64 x"
proof -
  define u where "u = (2::rat) powi (expo x - 52)"
  have u: "0 < u" by (simp add: u_def)
  obtain m where m: "of_int n / u = of_int m"
    using int_on_grid [OF assms(2)] unfolding u_def by blast
  have "of_int n / u \<le> x / u" using assms(1) u by (simp add: divide_right_mono)
  then have "round_half_even (of_int n / u) \<le> round_half_even (x / u)"
    by (rule round_half_even_mono)
  then have "m \<le> round_half_even (x / u)"
    by (simp add: m round_half_even_of_int)
  then have "(of_int m :: rat) \<le> of_int (round_half_even (x / u))" by simp
  then have "(of_int m :: rat) * u \<le> of_int (round_half_even (x / u)) * u"
    using u by (intro mult_right_mono) simp_all
  moreover have "of_int m * u = of_int n" using m u by (simp add: field_simps)
  ultimately have "of_int n \<le> of_int (round_half_even (x / u)) * u" by simp
  then show ?thesis unfolding b64_unfold [OF assms(3)] u_def .
qed

lemma b64_le_int:
  assumes "x \<le> of_int n" and "expo x \<le> 52" and "x \<noteq> 0"
  shows "b64 x \<le> of_int n"
proof -
  define u where "u = (2::rat) powi (expo x - 52)"
  have u: "0 < u" by (simp add: u_def)
  obtain m where m: "of_int n / u = of_int m"
    using int_on_grid [OF assms(2)] unfolding u_def by blast
  have "x / u \<le> of_int n / u" using assms(1) u by (simp add: divide_right_mono)
  then have "round_half_even (x / u) \<le> round_half_even (of_int n / u)"
    by (rule round_half_even_mono)
  then have "round_half_even (x / u) \<le> m"
    by (simp add: m round_half_even_of_int)
  then have "(of_int (round_half_even (x / u)) :: rat) \<le> of_int m" by simp
  then have "of_int (round_half_even (x / u)) * u \<le> (of_int m :: rat) * u"
    using u by (intro mult_right_mono) simp_all
  moreover have "of_int m * u = of_int n" using m u by (simp add: field_simps)
  ultimately have "of_int (round_half_even (x / u)) * u \<le> of_int n" by simp
  then show ?thesis unfolding b64_unfold [OF assms(3)] u_def .
qed

lemma b64_error:
  assumes "x \<noteq> 0"
  shows "\<bar>b64 x - x\<bar> \<le> 2 powi (expo x - 53)"
proof -
  define u where "u = (2::rat) powi (expo x - 52)"
  have u: "0 < u" by (simp add: u_def)
  have h: "(2::rat) powi (expo x - 53) = u / 2"
    unfolding u_def using power_int_add [of "2::rat" "expo x - 53" 1] by simp
  define r where "r = (of_int (round_half_even (x / u)) :: rat)"
  have "x / u - 1 / 2 \<le> r" "r \<le> x / u + 1 / 2"
    unfolding r_def by (rule round_half_even_lower, rule round_half_even_upper)
  then have "(x / u - 1 / 2) * u \<le> r * u" "r * u \<le> (x / u + 1 / 2) * u"
    using u by (simp_all add: mult_right_mono)
  moreover have "(x / u - 1 / 2) * u = x - u / 2" "(x / u + 1 / 2) * u = x + u / 2"
    using u by (simp_all add: algebra_simps)
  ultimately have "x - u / 2 \<le> r * u" "r * u \<le> x + u / 2" by simp_all
  then have "\<bar>r * u - x\<bar> \<le> u / 2" by linarith
  then show ?thesis
    unfolding b64_unfold [OF assms] h r_def u_def .
qed

lemma b64_range_15_85:
  assumes "15 \<le> x" and "x \<le> 85"
  shows "15 \<le> b64 x \<and> b64 x \<le> 85 \<and> \<bar>b64 x - x\<bar> \<le> 1 / 2 ^ 47"
proof -
  have x: "x \<noteq> 0" using assms by auto
  have "\<bar>x\<bar> < 2 powi 7" using assms by simp
  from expo_bound [OF x this] have e: "expo x \<le> 6" by simp
  then have e52: "expo x \<le> 52" by simp
  have "(2::rat) powi (expo x - 53) \<le> 2 powi (- 47)"
    using e by (intro power_int_increasing) simp_all
  also have "(2::rat) powi (- 47) = 1 / 2 ^ 47"
    by (simp add: inverse_eq_divide)
  finally have "\<bar>b64 x - x\<bar> \<le> 1 / 2 ^ 47" using b64_error [OF x] by linarith
  moreover have "15 \<le> b64 x" using b64_ge_int [of 15 x] assms e52 x by simp
  moreover have "b64 x \<le> 85" using b64_le_int [of x 85] assms e52 x by simp
  ultimately show ?thesis by simp
qed

lemma b64_0: "b64 0 = 0"
  by (simp add: b64_def)

lemma b64_between:
  assumes "of_int lo \<le> x" and "x \<le> of_int hi"
    and "- (2 ^ 52) \<le> lo" and "hi \<le> 2 ^ 52"
  shows "of_int lo \<le> b64 x \<and> b64 x \<le> of_int hi"
proof (cases "x = 0")
  case True
  with assms(1,2) show ?thesis by (simp add: b64_0)
next
  case False
  have "(of_int lo :: rat) \<ge> of_int (- (2 ^ 52))" "(of_int hi :: rat) \<le> of_int (2 ^ 52)"
    using assms(3,4) by (simp_all only: of_int_le_iff)
  then have "- (2 ^ 52) \<le> x" "x \<le> 2 ^ 52" using assms(1,2) by simp_all
  then have "\<bar>x\<bar> < 2 powi 53" by simp
  from expo_bound [OF False this] have "expo x \<le> 52" by simp
  with b64_ge_int [OF assms(1) _ False] b64_le_int [OF assms(2) _ False]
  show ?thesis by simp
qed

lemma b64_close:
  assumes "\<bar>x\<bar> \<le> 512"
  shows "\<bar>b64 x - x\<bar> \<le> 1 / 100"
proof (cases "x = 0")
  case True
  then show ?thesis by (simp add: b64_0)
next
  case False
  have "\<bar>x\<bar> < 2 powi 10" using assms by simp
  from expo_bound [OF False this] have "expo x - 53 \<le> - 44" by simp
  then have "(2::rat) powi (expo x - 53) \<le> 2 powi (- 44)"
    by (intro power_int_increasing) simp_all
  also have "\<dots> \<le> 1 / 100" by (simp add: inverse_eq_divide)
  finally show ?thesis using b64_error [OF False] by linarith
qed

lemma b64_nonzero:
  assumes "x \<noteq> 0"
  shows "b64 x \<noteq> 0"
proof -
  have "(2::rat) powi (expo x - 53) = 2 powi (expo x) / 2 ^ 53"
    using power_int_diff [of "2::rat" "expo x" 53] by simp
  also have "\<dots> < 2 powi (expo x)" by (simp add: divide_less_eq)
  finally have "(2::rat) powi (expo x - 53) < \<bar>x\<bar>"
    using expo_lower [OF assms] by linarith
  with b64_error [OF assms] show ?thesis by auto
qed

lemma expo_upper:
  assumes "x \<noteq> 0"
  shows "\<bar>x\<bar> < 2 powi (expo x + 1)"
proof -
  define p where "p = fst (quotient_of \<bar>x\<bar>)"
  define q where "q = snd (quotient_of \<bar>x\<bar>)"
  define k where "k = bitlen p - bitlen q"
  have q: "0 < q" unfolding q_def by (rule quotient_of_denom_pos')
  have a: "\<bar>x\<bar> = of_int p / of_int q"
    unfolding p_def q_def by (rule quotient_of_div) simp
  have "0 < \<bar>x\<bar>" using assms by simp
  with a q have p: "0 < p" by (simp add: zero_less_divide_iff)
  have e: "expo x = (if 2 powi k \<le> \<bar>x\<bar> then k else k - 1)"
    by (simp add: expo_def Let_def p_def q_def k_def)
  show ?thesis
  proof (cases "2 powi k \<le> \<bar>x\<bar>")
    case False
    with e show ?thesis by simp
  next
    case True
    from bitlen_bounds [OF p] have "p < 2 ^ nat (bitlen p)" by simp
    then have hi: "of_int p < (2::rat) ^ nat (bitlen p)"
      by (metis of_int_less_iff of_int_numeral of_int_power)
    from bitlen_bounds [OF q] have "2 ^ nat (bitlen q - 1) \<le> q" by simp
    then have lo: "(2::rat) ^ nat (bitlen q - 1) \<le> of_int q"
      by (metis of_int_le_iff of_int_numeral of_int_power)
    have bp: "1 \<le> bitlen p" and bq: "1 \<le> bitlen q"
      using p q by (auto simp: bitlen_alt_def)
    have "of_int p / of_int q < (2::rat) ^ nat (bitlen p) / of_int q"
      using hi q by (simp add: divide_strict_right_mono)
    also have "\<dots> \<le> 2 ^ nat (bitlen p) / 2 ^ nat (bitlen q - 1)"
      by (intro frac_le) (use lo in simp_all)
    also have "\<dots> = 2 powi (int (nat (bitlen p)) - int (nat (bitlen q - 1)))"
      by (rule powi_diff_nat [symmetric])
    also have "int (nat (bitlen p)) - int (nat (bitlen q - 1)) = k + 1"
      using bp bq by (simp add: k_def)
    finally show ?thesis using True e a by simp
  qed
qed

lemma above_power_nonzero:
  assumes "2 powi e \<le> \<bar>x :: rat\<bar>"
  shows "x \<noteq> 0"
proof
  assume "x = 0"
  with assms have "(2::rat) powi e \<le> 0" by simp
  moreover have "(0::rat) < 2 powi e" by simp
  ultimately show False by simp
qed

lemma expo_eq:
  assumes "2 powi e \<le> \<bar>x\<bar>" and "\<bar>x\<bar> < 2 powi (e + 1)"
  shows "expo x = e"
proof -
  have x: "x \<noteq> 0" by (rule above_power_nonzero [OF assms(1)])
  have "expo x < e + 1" by (rule expo_bound [OF x assms(2)])
  moreover have "e < expo x + 1"
  proof (rule ccontr)
    assume "\<not> e < expo x + 1"
    then have "(2::rat) powi (expo x + 1) \<le> 2 powi e"
      by (intro power_int_increasing) simp_all
    with expo_upper [OF x] assms(1) show False by simp
  qed
  ultimately show ?thesis by simp
qed

lemma b64_at:
  assumes "2 powi e \<le> \<bar>x\<bar>" and "\<bar>x\<bar> < 2 powi (e + 1)"
  shows "b64 x = of_int (round_half_even (x / 2 powi (e - 52))) * 2 powi (e - 52)"
proof -
  have "x \<noteq> 0" by (rule above_power_nonzero [OF assms(1)])
  with expo_eq [OF assms] show ?thesis by (simp add: b64_unfold)
qed

lemma floor_numeral_quotient:
  "\<lfloor>(numeral a :: rat) / numeral b\<rfloor> = numeral a div numeral b"
  "\<lfloor>- ((numeral a :: rat) / numeral b)\<rfloor> = - numeral a div numeral b"
  using floor_divide_of_int_eq [of "numeral a" "numeral b", where ?'a = rat]
        floor_divide_of_int_eq [of "- numeral a" "numeral b", where ?'a = rat]
  by simp_all

text \<open>Rules that evaluate \<open>b64\<close> at a numeral of magnitude in [1/256, 512).\<close>

lemmas b64_numeral =
  floor_numeral_quotient
  b64_0
  b64_at [of "- 8"] b64_at [of "- 7"] b64_at [of "- 6"] b64_at [of "- 5"] b64_at [of "- 4"]
  b64_at [of "- 3"] b64_at [of "- 2"] b64_at [of "- 1"] b64_at [of 0] b64_at [of 1]
  b64_at [of 2] b64_at [of 3] b64_at [of 4] b64_at [of 5] b64_at [of 6] b64_at [of 7]
  b64_at [of 8]

lemmas b64_eval = b64_numeral round_half_even_def py_round1_def Let_def py_int_def

text \<open>
  The two rounded values are the floats nearest to two tenths \<open>k1/10\<close> and \<open>k2/10\<close> with
  \<open>k1 + k2\<close> one of 999, 1000 and 1001, and both lie in [15, 85].
\<close>

lemma py_round1_tenths:
  assumes "15 \<le> x" and "x \<le> 85"
  shows "py_round1 x = of_int (round_half_even (x * 10)) / 10
         \<and> 150 \<le> round_half_even (x * 10) \<and> round_half_even (x * 10) \<le> 850"
proof -
  have "round_half_even (of_int 150) \<le> round_half_even (x * 10)"
    using assms(1) by (intro round_half_even_mono) simp
  moreover have "round_half_even (x * 10) \<le> round_half_even (of_int 850)"
    using assms(2) by (intro round_half_even_mono) simp
  ultimately show ?thesis
    by (simp only: round_half_even_of_int py_round1_def)
qed

lemma clamp_probs_b64:
  "\<exists>k1 k2. clamp_probs_fl b64 x = (b64 (of_int k1 / 10), b64 (of_int k2 / 10))
     \<and> 150 \<le> k1 \<and> k1 \<le> 850 \<and> 150 \<le> k2 \<and> k2 \<le> 850
     \<and> \<bar>k1 + k2 - 1000\<bar> \<le> 1
     \<and> 15 \<le> b64 (of_int k1 / 10) \<and> b64 (of_int k1 / 10) \<le> 85
     \<and> 15 \<le> b64 (of_int k2 / 10) \<and> b64 (of_int k2 / 10) \<le> 85"
proof -
  define b1 where "b1 = max 15 (min 85 x)"
  define b2 where "b2 = b64 (100 - b1)"
  define k1 where "k1 = round_half_even (b1 * 10)"
  define k2 where "k2 = round_half_even (b2 * 10)"
  have b1: "15 \<le> b1" "b1 \<le> 85" by (auto simp: b1_def)
  then have c: "15 \<le> 100 - b1" "100 - b1 \<le> 85" by auto
  from b64_range_15_85 [OF c] have b2: "15 \<le> b2" "b2 \<le> 85"
    and e: "\<bar>b2 - (100 - b1)\<bar> \<le> 1 / 2 ^ 47" by (simp_all add: b2_def)
  from py_round1_tenths [OF b1] have r1: "py_round1 b1 = of_int k1 / 10"
    and k1: "150 \<le> k1" "k1 \<le> 850" by (simp_all add: k1_def)
  from py_round1_tenths [OF b2] have r2: "py_round1 b2 = of_int k2 / 10"
    and k2: "150 \<le> k2" "k2 \<le> 850" by (simp_all add: k2_def)
  have v: "clamp_probs_fl b64 x = (b64 (of_int k1 / 10), b64 (of_int k2 / 10))"
    by (simp add: clamp_probs_fl_def py_round1_fl_def Let_def b1_def [symmetric]
        b2_def [symmetric] r1 r2)
  have l1: "b1 * 10 - 1 / 2 \<le> of_int k1" "of_int k1 \<le> b1 * 10 + 1 / 2"
    unfolding k1_def by (rule round_half_even_lower, rule round_half_even_upper)
  have l2: "b2 * 10 - 1 / 2 \<le> of_int k2" "of_int k2 \<le> b2 * 10 + 1 / 2"
    unfolding k2_def by (rule round_half_even_lower, rule round_half_even_upper)
  have small: "(1::rat) / 2 ^ 47 \<le> 1 / 100" by simp
  from e small have e': "b2 \<le> 100 - b1 + 1 / 100" "100 - b1 - 1 / 100 \<le> b2" by linarith+
  have "(998 :: rat) < of_int (k1 + k2)" "of_int (k1 + k2) < (1002 :: rat)"
    using l1 l2 e' by (simp_all only: of_int_add)
  then have "998 < k1 + k2" "k1 + k2 < 1002"
    by (metis of_int_less_iff of_int_numeral)+
  then have s: "\<bar>k1 + k2 - 1000\<bar> \<le> 1" by linarith
  have t1: "(15::rat) \<le> of_int k1 / 10" "of_int k1 / 10 \<le> (85::rat)"
    using k1 by (simp_all add: le_divide_eq divide_le_eq)
  have t2: "(15::rat) \<le> of_int k2 / 10" "of_int k2 / 10 \<le> (85::rat)"
    using k2 by (simp_all add: le_divide_eq divide_le_eq)
  from b64_range_15_85 [OF t1] b64_range_15_85 [OF t2] v k1 k2 s show ?thesis by blast
qed

lemma calculate_win_probability_fl_Inr:
  assumes "calculate_win_probability_fl fl d match_id tw td n = Inr r"
  shows "\<exists>x. win_prob r = clamp_probs_fl fl x"
  using assms
  by (auto simp: calculate_win_probability_fl_def Let_def split: sum.splits)

text \<open>
  With overall ratings in [0, 100] and a head-to-head draw of at most 15 no division of
  the analyzer is by zero under binary64 rounding either.
\<close>

lemma scale_between:
  assumes "0 \<le> c" and "c \<le> 1" and "lo \<le> 0" and "0 \<le> hi" and "lo \<le> x" and "x \<le> hi"
  shows "lo \<le> x * c \<and> x * c \<le> (hi :: rat)"
proof (cases "0 \<le> x")
  case True
  then have "0 \<le> x * c" "x * c \<le> x * 1"
    using assms(1,2) mult_left_mono [of c 1 x] by simp_all
  with assms show ?thesis by simp
next
  case False
  then have "x * c \<le> 0" "x * 1 \<le> x * c"
    using assms(1,2) mult_left_mono_neg [of c 1 x] mult_nonpos_nonneg [of x c] by simp_all
  with assms show ?thesis by simp
qed

lemma get_team_rating_overall_range:
  assumes "overall_in_range d"
  shows "0 \<le> overall (get_team_rating d t) \<and> overall (get_team_rating d t) \<le> 100"
proof (cases "team_ratings d t")
  case None
  then show ?thesis by (simp add: get_team_rating_def)
next
  case (Some r)
  then have "(t, r) \<in> set (rev (map (\<lambda>row. (Team row,
        \<lparr>batting = Bat_Rating row, bowling = Bowl_Rating row, overall = Overall_Rating row\<rparr>))
        (team_ratings_df d)))"
    unfolding team_ratings_def by (rule map_of_SomeD)
  then obtain row where "row \<in> set (team_ratings_df d)" "overall r = Overall_Rating row"
    by auto
  with assms have "0 \<le> overall r \<and> overall r \<le> 100"
    by (auto simp: overall_in_range_def list_all_iff)
  with Some show ?thesis by (simp add: get_team_rating_def)
qed

lemma h2h_pct_range:
  assumes "0 \<le> o1" "o1 \<le> 100" "0 \<le> o2" "o2 \<le> 100" and "t \<le> 15"
    and "overall (get_team_rating d a) = o1" "overall (get_team_rating d b) = o2"
  shows "- 100 \<le> team1_win_pct (get_head_to_head_record_fl b64 d a b t)
       \<and> team1_win_pct (get_head_to_head_record_fl b64 d a b t) \<le> 200"
proof (cases "0 < t")
  case False
  then show ?thesis by (simp add: get_head_to_head_record_fl_def Let_def)
next
  case True
  define s where "s = (if o2 < o1 then b64 (1 / 2 + b64 (b64 (o1 - o2) / 100))
                       else b64 (1 / 2 - b64 (b64 (o2 - o1) / 100)))"
  define w where "w = py_int (b64 (of_int t * s))"
  have pct: "team1_win_pct (get_head_to_head_record_fl b64 d a b t)
               = b64 (b64 (of_int w / of_int t) * 100)"
    using True by (simp add: get_head_to_head_record_fl_def Let_def assms(6,7) w_def s_def)
  have s: "- 1 \<le> s \<and> s \<le> 2"
  proof (cases "o2 < o1")
    case True
    have "of_int 0 \<le> b64 (o1 - o2) \<and> b64 (o1 - o2) \<le> of_int 100"
      using True assms(1-4) by (intro b64_between) simp_all
    then have "of_int 0 \<le> b64 (b64 (o1 - o2) / 100) \<and> b64 (b64 (o1 - o2) / 100) \<le> of_int 1"
      by (intro b64_between) simp_all
    then have "of_int (- 1) \<le> b64 (1 / 2 + b64 (b64 (o1 - o2) / 100))
             \<and> b64 (1 / 2 + b64 (b64 (o1 - o2) / 100)) \<le> of_int 2"
      by (intro b64_between) simp_all
    with True show ?thesis by (simp add: s_def)
  next
    case False
    have "of_int 0 \<le> b64 (o2 - o1) \<and> b64 (o2 - o1) \<le> of_int 100"
      using False assms(1-4) by (intro b64_between) simp_all
    then have "of_int 0 \<le> b64 (b64 (o2 - o1) / 100) \<and> b64 (b64 (o2 - o1) / 100) \<le> of_int 1"
      by (intro b64_between) simp_all
    then have "of_int (- 1) \<le> b64 (1 / 2 - b64 (b64 (o2 - o1) / 100))
             \<and> b64 (1 / 2 - b64 (b64 (o2 - o1) / 100)) \<le> of_int 2"
      by (intro b64_between) simp_all
    with False show ?thesis by (simp add: s_def)
  qed
  have tpos: "(0::rat) < of_int t" using True by simp
  have "of_int t * (- 1) \<le> of_int t * s" "of_int t * s \<le> of_int t * 2"
    using s tpos mult_left_mono [of "- 1" s "of_int t"] mult_left_mono [of s 2 "of_int t"]
    by simp_all
  then have ts: "of_int (- t) \<le> of_int t * s" "of_int t * s \<le> of_int (2 * t)" by simp_all
  have "of_int (- t) \<le> b64 (of_int t * s) \<and> b64 (of_int t * s) \<le> of_int (2 * t)"
    using ts assms(5) True by (intro b64_between) simp_all
  then have w: "- t \<le> w" "w \<le> 2 * t"
    unfolding w_def py_int_def by (auto simp: le_floor_iff ceiling_le_iff) linarith+
  have "(of_int (- t) :: rat) \<le> of_int w" "(of_int w :: rat) \<le> of_int (2 * t)"
    using w by (simp_all only: of_int_le_iff)
  then have "- 1 \<le> (of_int w :: rat) / of_int t" "(of_int w :: rat) / of_int t \<le> 2"
    using tpos by (simp_all add: le_divide_eq divide_le_eq)
  then have "of_int (- 1) \<le> b64 (of_int w / of_int t) \<and> b64 (of_int w / of_int t) \<le> of_int 2"
    by (intro b64_between) simp_all
  then have "of_int (- 100) \<le> b64 (b64 (of_int w / of_int t) * 100)
           \<and> b64 (b64 (of_int w / of_int t) * 100) \<le> of_int 200"
    by (intro b64_between) simp_all
  then show ?thesis by (simp add: pct)
qed

lemma b64_half_bonus: "b64 (15 / 2) = 15 / 2"
  by (simp add: b64_eval)

lemma base_prob_h2h_b64_range:
  assumes "0 \<le> overall r1" "overall r1 \<le> 100" "0 \<le> overall r2" "overall r2 \<le> 100"
    and "- 100 \<le> team1_win_pct h" "team1_win_pct h \<le> 200"
  shows "- 200 \<le> base_prob_h2h_fl b64 r1 r2 h \<and> base_prob_h2h_fl b64 r1 r2 h \<le> 400"
proof -
  define hf where "hf = b64 (1 / 10)"
  define c9 where "c9 = b64 (1 - hf)"
  define base0 where "base0 = b64 (50 + b64 (b64 (overall r1 - overall r2) * (3 / 2)))"
  have hf: "of_int 0 \<le> hf \<and> hf \<le> of_int 1"
    unfolding hf_def by (intro b64_between) simp_all
  then have c9: "of_int 0 \<le> c9 \<and> c9 \<le> of_int 1"
    unfolding c9_def by (intro b64_between) simp_all
  have "of_int (- 100) \<le> b64 (overall r1 - overall r2)
        \<and> b64 (overall r1 - overall r2) \<le> of_int 100"
    using assms(1-4) by (intro b64_between) simp_all
  then have "of_int (- 150) \<le> b64 (b64 (overall r1 - overall r2) * (3 / 2))
        \<and> b64 (b64 (overall r1 - overall r2) * (3 / 2)) \<le> of_int 150"
    by (intro b64_between) simp_all
  then have b0: "of_int (- 100) \<le> base0 \<and> base0 \<le> of_int 200"
    unfolding base0_def by (intro b64_between) simp_all
  have "- 100 \<le> base0 * c9 \<and> base0 * c9 \<le> 200"
    using b0 c9 by (intro scale_between) simp_all
  then have p1: "of_int (- 100) \<le> b64 (base0 * c9) \<and> b64 (base0 * c9) \<le> of_int 200"
    by (intro b64_between) simp_all
  have "- 100 \<le> team1_win_pct h * hf \<and> team1_win_pct h * hf \<le> 200"
    using assms(5,6) hf by (intro scale_between) simp_all
  then have p2: "of_int (- 100) \<le> b64 (team1_win_pct h * hf)
                 \<and> b64 (team1_win_pct h * hf) \<le> of_int 200"
    by (intro b64_between) simp_all
  have "of_int (- 200) \<le> b64 (b64 (base0 * c9) + b64 (team1_win_pct h * hf))
        \<and> b64 (b64 (base0 * c9) + b64 (team1_win_pct h * hf)) \<le> of_int 400"
    using p1 p2 by (intro b64_between) simp_all
  then show ?thesis
    by (simp add: base_prob_h2h_fl_def Let_def hf_def c9_def base0_def)
qed

lemma total_nonzero:
  assumes "- 200 \<le> b1" "b1 \<le> 400" and "7 \<le> c" "c \<le> 15"
  shows "b64 (b64 (b1 + c) + b64 (100 - b1)) \<noteq> 0"
    and "b64 (b1 + b64 (b64 (100 - b1) + c)) \<noteq> 0"
proof -
  have e2: "\<bar>b64 (100 - b1) - (100 - b1)\<bar> \<le> 1 / 100"
    using assms(1,2) by (intro b64_close) simp
  have e1: "\<bar>b64 (b1 + c) - (b1 + c)\<bar> \<le> 1 / 100"
    using assms by (intro b64_close) simp
  have "106 \<le> b64 (b1 + c) + b64 (100 - b1)"
       "b64 (b1 + c) + b64 (100 - b1) \<le> 116"
    using e1 e2 assms(3,4) by linarith+
  then have "of_int 106 \<le> b64 (b64 (b1 + c) + b64 (100 - b1))
           \<and> b64 (b64 (b1 + c) + b64 (100 - b1)) \<le> of_int 116"
    by (intro b64_between) simp_all
  then show "b64 (b64 (b1 + c) + b64 (100 - b1)) \<noteq> 0" by auto
  have "\<bar>b64 (100 - b1) + c\<bar> \<le> 512" using e2 assms by linarith
  then have e3: "\<bar>b64 (b64 (100 - b1) + c) - (b64 (100 - b1) + c)\<bar> \<le> 1 / 100"
    by (rule b64_close)
  have "106 \<le> b1 + b64 (b64 (100 - b1) + c)"
       "b1 + b64 (b64 (100 - b1) + c) \<le> 116"
    using e3 e2 assms(3,4) by linarith+
  then have "of_int 106 \<le> b64 (b1 + b64 (b64 (100 - b1) + c))
           \<and> b64 (b1 + b64 (b64 (100 - b1) + c)) \<le> of_int 116"
    by (intro b64_between) simp_all
  then show "b64 (b1 + b64 (b64 (100 - b1) + c)) \<noteq> 0" by auto
qed

lemma normalize_after_toss_b64:
  assumes "- 200 \<le> b1" "b1 \<le> 400"
  shows "\<exists>q. normalize_probs_fl b64 (apply_toss_fl b64 vi tw td (b1, b64 (100 - b1))) = Inr q"
  using total_nonzero [OF assms, of 15] total_nonzero [OF assms, of "15 / 2"]
  by (simp add: normalize_probs_fl_def apply_toss_fl_def py_truediv_fl_def Let_def
      b64_half_bonus)

lemma bat_vs_bowl_b64_ok:
  assumes "bowling r1 + 20 \<noteq> 0" "bowling r2 + 20 \<noteq> 0"
  shows "\<exists>edges. bat_vs_bowl_fl b64 r1 r2 vi = Inr edges"
  using b64_nonzero [OF assms(1)] b64_nonzero [OF assms(2)]
  by (simp add: bat_vs_bowl_fl_def py_truediv_fl_def Let_def)

lemma calculate_win_probability_b64_returns:
  assumes "match_id \<in> Match_ID ` set (schedule_df d)" and "ratings_ok d"
    and "overall_in_range d" and "draw_total \<le> 15"
  shows "\<exists>r. calculate_win_probability_fl b64 d match_id toss_winner toss_decision draw_total
               = Inr r"
proof -
  from get_match_details_present [OF assms(1)]
  obtain m where m: "get_match_details d match_id = Inr m" by blast
  define r1 where "r1 = get_team_rating d (Team1 m)"
  define r2 where "r2 = get_team_rating d (Team2 m)"
  define vi where "vi = get_venue_impact d (Venue m)"
  define h where "h = get_head_to_head_record_fl b64 d (Team1 m) (Team2 m) draw_total"
  define b where "b = base_prob_h2h_fl b64 r1 r2 h"
  have "bowling r1 + 20 \<noteq> 0" "bowling r2 + 20 \<noteq> 0"
    unfolding r1_def r2_def using get_team_rating_bowling [OF assms(2)] by blast+
  then obtain edges where e: "bat_vs_bowl_fl b64 r1 r2 vi = Inr edges"
    using bat_vs_bowl_b64_ok by blast
  have o: "0 \<le> overall r1" "overall r1 \<le> 100" "0 \<le> overall r2" "overall r2 \<le> 100"
    unfolding r1_def r2_def using get_team_rating_overall_range [OF assms(3)] by blast+
  have p: "- 100 \<le> team1_win_pct h \<and> team1_win_pct h \<le> 200"
    unfolding h_def by (rule h2h_pct_range [OF o assms(4)]) (simp_all add: r1_def r2_def)
  have "- 200 \<le> b \<and> b \<le> 400"
    unfolding b_def using o p by (intro base_prob_h2h_b64_range) simp_all
  then obtain q where
    q: "normalize_probs_fl b64 (apply_toss_fl b64 vi toss_winner toss_decision (b, b64 (100 - b)))
          = Inr q"
    using normalize_after_toss_b64 by blast
  have "calculate_win_probability_fl b64 d match_id toss_winner toss_decision draw_total =
          Inr \<lparr>a_team1 = Team1 m, a_team2 = Team2 m, a_venue = Venue m,
               win_prob = clamp_probs_fl b64 (fst q)\<rparr>"
    using m e q
    by (simp add: calculate_win_probability_fl_def Let_def r1_def r2_def vi_def b_def h_def)
  then show ?thesis by blast
qed

text \<open>
  The not-found error under any rounding: raised exactly for the ids that are absent.
\<close>

lemma not_found_any_rounding:
  "(calculate_win_probability_fl fl d match_id tw td t = Inl (ValueError match_id))
     = (match_id \<notin> Match_ID ` set (schedule_df d))"
proof (cases "match_id \<in> Match_ID ` set (schedule_df d)")
  case True
  from get_match_details_present [OF True]
  obtain m where m: "get_match_details d match_id = Inr m" by blast
  have "calculate_win_probability_fl fl d match_id tw td t \<noteq> Inl (ValueError match_id)"
    using m
    by (auto simp: calculate_win_probability_fl_def Let_def bat_vs_bowl_fl_def
        py_truediv_fl_def normalize_probs_fl_def split: sum.splits if_splits)
  with True show ?thesis by simp
next
  case False
  from get_match_details_absent [OF False] False show ?thesis
    by (simp add: calculate_win_probability_fl_def)
qed

text \<open>
  Equal overall ratings under binary64 rounding: the value before the toss adjustment is
  50 for an even head-to-head draw and the float nearest to \<open>50 - 5/t\<close> for an odd draw
  \<open>t\<close>, as in the exact rendering (\<open>py_int_half\<close>).
\<close>

lemma pre_toss_equal_ratings_any_table:
  assumes "overall (get_team_rating d team1) = overall (get_team_rating d team2)"
  shows "pre_toss_prob_fl fl d team1 team2 t = pre_toss_prob_fl fl even_tables ''Alpha'' ''Beta'' t"
proof -
  have e: "overall (get_team_rating even_tables ''Alpha'') = 55"
    "overall (get_team_rating even_tables ''Beta'') = 55"
    by (simp_all add: get_team_rating_def team_ratings_def even_tables_def)
  show ?thesis
    unfolding pre_toss_prob_fl_def base_prob_h2h_fl_def get_head_to_head_record_fl_def
    by (simp add: assms e Let_def)
qed

lemma even_ratings:
  "get_team_rating even_tables ''Alpha'' = \<lparr>batting = 62, bowling = 48, overall = 55\<rparr>"
  "get_team_rating even_tables ''Beta'' = \<lparr>batting = 51, bowling = 59, overall = 55\<rparr>"
  by (simp_all add: get_team_rating_def team_ratings_def even_tables_def)

lemma pre_toss_binary64_table:
  "pre_toss_prob_fl b64 even_tables ''Alpha'' ''Beta'' 8 = 50"
  "pre_toss_prob_fl b64 even_tables ''Alpha'' ''Beta'' 9 = 3479343462117831 / 70368744177664"
  "pre_toss_prob_fl b64 even_tables ''Alpha'' ''Beta'' 10 = 50"
  "pre_toss_prob_fl b64 even_tables ''Alpha'' ''Beta'' 11 = 3486451416075171 / 70368744177664"
  "pre_toss_prob_fl b64 even_tables ''Alpha'' ''Beta'' 12 = 50"
  "pre_toss_prob_fl b64 even_tables ''Alpha'' ''Beta'' 13 = 1745686153638203 / 35184372088832"
  "pre_toss_prob_fl b64 even_tables ''Alpha'' ''Beta'' 14 = 50"
  "pre_toss_prob_fl b64 even_tables ''Alpha'' ''Beta'' 15 = 6989961921647957 / 140737488355328"
  unfolding pre_toss_prob_fl_def base_prob_h2h_fl_def get_head_to_head_record_fl_def
    even_ratings Let_def
  by (simp_all add: b64_eval)

lemma b64_odd_draws:
  "b64 50 = 50"
  "b64 (445 / 9) = 3479343462117831 / 70368744177664"
  "b64 (545 / 11) = 3486451416075171 / 70368744177664"
  "b64 (645 / 13) = 1745686153638203 / 35184372088832"
  "b64 (149 / 3) = 6989961921647957 / 140737488355328"
  by (simp_all add: b64_eval)

lemma equal_ratings_pre_toss_binary64:
  assumes "overall (get_team_rating d team1) = overall (get_team_rating d team2)"
    and "8 \<le> t" and "t \<le> 15"
  shows "pre_toss_prob_fl b64 d team1 team2 t = b64 (if even t then 50 else 50 - 5 / of_int t)"
proof -
  from assms(2,3) have "t = 8 \<or> t = 9 \<or> t = 10 \<or> t = 11 \<or> t = 12 \<or> t = 13 \<or> t = 14 \<or> t = 15"
    by arith
  then show ?thesis
    unfolding pre_toss_equal_ratings_any_table [OF assms(1)]
    by (elim disjE) (simp_all add: pre_toss_binary64_table b64_odd_draws)
qed

text \<open>The analyzer on the example tables \<open>tie_tables\<close>, step by step.\<close>

lemma tie_ratings:
  "get_team_rating tie_tables ''Alpha'' =
     \<lparr>batting = 30, bowling = 30, overall = 1956642025606713 / 70368744177664\<rparr>"
  "get_team_rating tie_tables ''Beta'' = \<lparr>batting = 50, bowling = 50, overall = 50\<rparr>"
  "get_venue_impact tie_tables ''Oval'' =
     \<lparr>bat_first_win_pct = 55, bowl_first_win_pct = 45, avg_score = 155, run_rate' = 9\<rparr>"
  "get_match_details tie_tables 1 =
     Inr \<lparr>Match_ID = 1, Team1 = ''Alpha'', Team2 = ''Beta'', Venue = ''Oval''\<rparr>"
  by (simp_all add: get_team_rating_def team_ratings_def get_venue_impact_def venue_stats_def
      get_match_details_def tie_tables_def)

lemma tie_h2h:
  "get_head_to_head_record_fl b64 tie_tables ''Alpha'' ''Beta'' 8 =
     \<lparr>total_matches = 8, team1_wins = 2, team2_wins = 6, team1_win_pct = 25, team2_win_pct = 75\<rparr>"
  unfolding get_head_to_head_record_fl_def tie_ratings Let_def
  by (simp add: b64_eval)

lemma tie_bat:
  "bat_vs_bowl_fl b64 \<lparr>batting = 30, bowling = 30, overall = 1956642025606713 / 70368744177664\<rparr>
     \<lparr>batting = 50, bowling = 50, overall = 50\<rparr>
     \<lparr>bat_first_win_pct = 55, bowl_first_win_pct = 45, avg_score = 155, run_rate' = 9\<rparr>
   = Inr (6634767308179749 / 140737488355328, 7740561859543041 / 70368744177664)"
  unfolding bat_vs_bowl_fl_def py_truediv_fl_def Let_def
  by (simp add: b64_eval)

lemma tie_base:
  "base_prob_h2h_fl b64 \<lparr>batting = 30, bowling = 30, overall = 1956642025606713 / 70368744177664\<rparr>
     \<lparr>batting = 50, bowling = 50, overall = 50\<rparr>
     \<lparr>total_matches = 8, team1_wins = 2, team2_wins = 6, team1_win_pct = 25, team2_win_pct = 75\<rparr>
   = 2468183702031565 / 140737488355328"
  unfolding base_prob_h2h_fl_def Let_def
  by (simp add: b64_eval)

lemma tie_toss:
  "apply_toss_fl b64
     \<lparr>bat_first_win_pct = 55, bowl_first_win_pct = 45, avg_score = 155, run_rate' = 9\<rparr>
     ''Team B'' ''Bat''
     (2468183702031565 / 140737488355328, b64 (100 - 2468183702031565 / 140737488355328))
   = (2468183702031565 / 140737488355328, 3429156864707789 / 35184372088832)"
  unfolding apply_toss_fl_def Let_def
  by (simp add: b64_eval)

lemma tie_norm:
  "normalize_probs_fl b64 (2468183702031565 / 140737488355328, 3429156864707789 / 35184372088832)
   = Inr (8584986789675009 / 562949953421312, 339 / 4)"
  unfolding normalize_probs_fl_def py_truediv_fl_def Let_def
  by (simp add: b64_eval)

lemma tie_clamp:
  "clamp_probs_fl b64 (8584986789675009 / 562949953421312)
   = (4306567143673037 / 281474976710656, 5967269506265907 / 70368744177664)"
  unfolding clamp_probs_fl_def py_round1_fl_def Let_def
  by (simp add: b64_eval)

lemma tie_result:
  "calculate_win_probability_fl b64 tie_tables 1 ''Team B'' ''Bat'' 8 =
     Inr \<lparr>a_team1 = ''Alpha'', a_team2 = ''Beta'', a_venue = ''Oval'',
          win_prob = (4306567143673037 / 281474976710656, 5967269506265907 / 70368744177664)\<rparr>"
  unfolding calculate_win_probability_fl_def
  by (simp only: tie_ratings tie_h2h tie_bat tie_base tie_toss tie_norm tie_clamp Let_def
      sum.case fixture.simps fst_conv snd_conv)

text \<open>
  C1 as stated fails under binary64 rounding. On \<open>tie_tables\<close> (every rating a binary64
  number, overall ratings in [0, 100]), with the toss to team 2 who bat and a head-to-head
  draw of 8, team 1's clamped probability is \<^verbatim>\<open>15.250000000000002\<close> and rounds to
  \<^verbatim>\<open>15.3\<close>, while \<^verbatim>\<open>100 - 15.250000000000002 = 84.75\<close> exactly and rounds to \<^verbatim>\<open>84.8\<close>: the
  returned pair is \<^verbatim>\<open>[15.3, 84.8]\<close> and sums to \<^verbatim>\<open>100.1\<close>, as a rational and as a float.
\<close>

theorem binary64_sum_counterexample:
  "1 \<in> Match_ID ` set (schedule_df tie_tables)
   \<and> ratings_ok tie_tables \<and> overall_in_range tie_tables
   \<and> list_all (\<lambda>row. b64 (Bat_Rating row) = Bat_Rating row
                      \<and> b64 (Bowl_Rating row) = Bowl_Rating row
                      \<and> b64 (Overall_Rating row) = Overall_Rating row)
         (team_ratings_df tie_tables)
   \<and> list_all (\<lambda>row. b64 (win_percent_bat_first row) = win_percent_bat_first row
                      \<and> b64 (win_percent_bowl_first row) = win_percent_bowl_first row)
         (venue_stats_df tie_tables)
   \<and> map_sum id win_prob (calculate_win_probability_fl b64 tie_tables 1 ''Team B'' ''Bat'' 8)
       = Inr (b64 (153 / 10), b64 (848 / 10))
   \<and> b64 (153 / 10) + b64 (848 / 10) \<noteq> 100
   \<and> \<bar>b64 (153 / 10) + b64 (848 / 10) - 1001 / 10\<bar> \<le> 1 / 2 ^ 40
   \<and> b64 (b64 (153 / 10) + b64 (848 / 10)) = b64 (1001 / 10)
   \<and> b64 (1001 / 10) \<noteq> 100"
proof -
  have i: "1 \<in> Match_ID ` set (schedule_df tie_tables)"
    "ratings_ok tie_tables" "overall_in_range tie_tables"
    by (simp_all add: tie_tables_def ratings_ok_def overall_in_range_def)
  have f: "list_all (\<lambda>row. b64 (Bat_Rating row) = Bat_Rating row
                      \<and> b64 (Bowl_Rating row) = Bowl_Rating row
                      \<and> b64 (Overall_Rating row) = Overall_Rating row)
             (team_ratings_df tie_tables)"
    "list_all (\<lambda>row. b64 (win_percent_bat_first row) = win_percent_bat_first row
                      \<and> b64 (win_percent_bowl_first row) = win_percent_bowl_first row)
             (venue_stats_df tie_tables)"
    by (simp_all add: tie_tables_def b64_eval)
  have v: "b64 (153 / 10) = 4306567143673037 / 281474976710656"
    "b64 (848 / 10) = 5967269506265907 / 70368744177664"
    "b64 (1001 / 10) = 3521955646092083 / 35184372088832"
    by (simp_all add: b64_eval)
  have s: "b64 (4306567143673037 / 281474976710656 + 5967269506265907 / 70368744177664)
             = 3521955646092083 / 35184372088832"
    by (simp add: b64_eval)
  have r: "map_sum id win_prob
             (calculate_win_probability_fl b64 tie_tables 1 ''Team B'' ''Bat'' 8)
           = Inr (b64 (153 / 10), b64 (848 / 10))"
    unfolding tie_result v by simp
  have n: "b64 (153 / 10) + b64 (848 / 10) \<noteq> 100"
    "\<bar>b64 (153 / 10) + b64 (848 / 10) - 1001 / 10\<bar> \<le> 1 / 2 ^ 40"
    "b64 (1001 / 10) \<noteq> 100"
    unfolding v by simp_all
  have t: "b64 (b64 (153 / 10) + b64 (848 / 10)) = b64 (1001 / 10)"
    unfolding v s by (rule refl)
  from i f r n t show ?thesis by simp
qed

text \<open>
  C1, amended. For every match id of the schedule, every toss winner and toss decision (the
  code reads any string other than \<^verbatim>\<open>'Team A'\<close> as team 2 and any other than \<^verbatim>\<open>'Bat'\<close> as
  bowling) and every head-to-head draw, with well-formed data (no bowling rating of
  \<open>-20\<close>): in exact arithmetic \<^verbatim>\<open>calculate_win_probability\<close> returns, the two rounded
  values of \<^verbatim>\<open>win_prob\<close> sum to exactly 100 and both lie in [15, 85]; under binary64
  rounding every pair it returns has both values in [15, 85], and they are the floats
  nearest to two tenths \<open>k1/10\<close> and \<open>k2/10\<close> with \<open>|k1 + k2 - 1000| \<le> 1\<close>, so the pair sums
  to 100 up to one tenth (and rounding error); and with overall ratings in [0, 100] and a
  draw of at most 15 it does return a pair.
\<close>

theorem win_prob_sum_exact_and_binary64:
  assumes "match_id \<in> Match_ID ` set (schedule_df d)" and "ratings_ok d"
  shows "(\<exists>r. calculate_win_probability d match_id toss_winner toss_decision draw_total = Inr r
           \<and> fst (win_prob r) + snd (win_prob r) = 100
           \<and> 15 \<le> fst (win_prob r) \<and> fst (win_prob r) \<le> 85
           \<and> 15 \<le> snd (win_prob r) \<and> snd (win_prob r) \<le> 85)
       \<and> (\<forall>r. calculate_win_probability_fl b64 d match_id toss_winner toss_decision draw_total
                 = Inr r \<longrightarrow>
             15 \<le> fst (win_prob r) \<and> fst (win_prob r) \<le> 85
             \<and> 15 \<le> snd (win_prob r) \<and> snd (win_prob r) \<le> 85
             \<and> (\<exists>k1 k2. win_prob r = (b64 (of_int k1 / 10), b64 (of_int k2 / 10))
                    \<and> \<bar>k1 + k2 - 1000\<bar> \<le> 1))
       \<and> (overall_in_range d \<and> draw_total \<le> 15 \<longrightarrow>
             (\<exists>r. calculate_win_probability_fl b64 d match_id toss_winner toss_decision
                    draw_total = Inr r))"
proof (intro conjI allI impI)
  from calculate_win_probability_returns [OF assms]
  obtain r b where r: "calculate_win_probability d match_id toss_winner toss_decision draw_total = Inr r"
    and b: "win_prob r = clamp_probs b" by blast
  show "\<exists>r. calculate_win_probability d match_id toss_winner toss_decision draw_total = Inr r
           \<and> fst (win_prob r) + snd (win_prob r) = 100
           \<and> 15 \<le> fst (win_prob r) \<and> fst (win_prob r) \<le> 85
           \<and> 15 \<le> snd (win_prob r) \<and> snd (win_prob r) \<le> 85"
    using r clamp_probs_sum [of b] clamp_probs_range [of b] unfolding b [symmetric] by simp
next
  fix r
  assume "calculate_win_probability_fl b64 d match_id toss_winner toss_decision draw_total = Inr r"
  from calculate_win_probability_fl_Inr [OF this] obtain x where
    x: "win_prob r = clamp_probs_fl b64 x" by blast
  from clamp_probs_b64 [of x] obtain k1 k2 where
    k: "clamp_probs_fl b64 x = (b64 (of_int k1 / 10), b64 (of_int k2 / 10))"
      "\<bar>k1 + k2 - 1000\<bar> \<le> 1"
      "15 \<le> b64 (of_int k1 / 10)" "b64 (of_int k1 / 10) \<le> 85"
      "15 \<le> b64 (of_int k2 / 10)" "b64 (of_int k2 / 10) \<le> 85" by blast
  show "15 \<le> fst (win_prob r)" "fst (win_prob r) \<le> 85"
    "15 \<le> snd (win_prob r)" "snd (win_prob r) \<le> 85"
    using k by (simp_all add: x)
  show "\<exists>k1 k2. win_prob r = (b64 (of_int k1 / 10), b64 (of_int k2 / 10))
                    \<and> \<bar>k1 + k2 - 1000\<bar> \<le> 1"
    using k(1,2) x by auto
next
  assume "overall_in_range d \<and> draw_total \<le> 15"
  then show "\<exists>r. calculate_win_probability_fl b64 d match_id toss_winner toss_decision
                    draw_total = Inr r"
    using calculate_win_probability_b64_returns [OF assms] by blast
qed

theorem win_prob_sum_exact_and_binary64_witness:
  "(\<exists>r. calculate_win_probability demo_tables 1 ''Team A'' ''Bat'' 9 = Inr r
           \<and> fst (win_prob r) + snd (win_prob r) = 100
           \<and> 15 \<le> fst (win_prob r) \<and> fst (win_prob r) \<le> 85
           \<and> 15 \<le> snd (win_prob r) \<and> snd (win_prob r) \<le> 85)
   \<and> (\<exists>r. calculate_win_probability_fl b64 demo_tables 1 ''Team A'' ''Bat'' 9 = Inr r
           \<and> 15 \<le> fst (win_prob r) \<and> fst (win_prob r) \<le> 85
           \<and> 15 \<le> snd (win_prob r) \<and> snd (win_prob r) \<le> 85
           \<and> (\<exists>k1 k2. win_prob r = (b64 (of_int k1 / 10), b64 (of_int k2 / 10))
                    \<and> \<bar>k1 + k2 - 1000\<bar> \<le> 1))"
proof -
  have h: "1 \<in> Match_ID ` set (schedule_df demo_tables)" "ratings_ok demo_tables"
    by (simp_all add: demo_tables_def ratings_ok_def)
  have o: "overall_in_range demo_tables \<and> (9::int) \<le> 15"
    by (simp add: demo_tables_def overall_in_range_def)
  note t = win_prob_sum_exact_and_binary64 [OF h, of "''Team A''" "''Bat''" 9]
  from t o obtain r where
    "calculate_win_probability_fl b64 demo_tables 1 ''Team A'' ''Bat'' 9 = Inr r" by blast
  with t show ?thesis by blast
qed

end
